theory Spec2Isabelle
  imports Main "HOL-Library.Sublist" "HOL-Library.AList" "HOL-Library.Char_ord"
    "HOL-Library.List_Lexorder"
begin

section \<open>Python values shared by the build manager and the release store\<close>

text \<open>
  Every \<^verbatim>\<open>raise Exception(msg)\<close> of the sources carries one message, and \<^verbatim>\<open>str(e)\<close>
  reads it back. Errors of the object store (botocore's ClientError) and of external
  commands are read the same way, through their message.
\<close>

datatype exn = Exception string

fun str :: "exn \<Rightarrow> string" where
  "str (Exception m) = m"

section \<open>Release store: cache control (aws\_manager.py)\<close>

text \<open>
  \<^verbatim>\<open>Path.suffix\<close> of pathlib, on the final component \<open>name\<close> of a path: the text from the
  last dot on, when that dot is neither the first nor the last character of the name.
\<close>

definition rfind_dot :: "string \<Rightarrow> nat option" where
  "rfind_dot name =
     (if CHR ''.'' \<in> set name
      then Some (length name - 1 - length (takeWhile (\<lambda>c. c \<noteq> CHR ''.'') (rev name)))
      else None)"

definition suffix_of :: "string \<Rightarrow> string" where
  "suffix_of name =
     (case rfind_dot name of
        None \<Rightarrow> []
      | Some i \<Rightarrow> if 0 < i \<and> i + 1 < length name then drop i name else [])"

text \<open>
  \<^verbatim>\<open>str.lower()\<close> on the letters A to Z. Outside ASCII Python lowers further characters,
  none of them to a string of the extension lists below.
\<close>

definition lower_char :: "char \<Rightarrow> char" where
  "lower_char c =
     (if CHR ''A'' \<le> c \<and> c \<le> CHR ''Z'' then char_of (of_char c + (32::nat)) else c)"

definition lower :: "string \<Rightarrow> string" where
  "lower s = map lower_char s"

definition get_cache_control :: "string \<Rightarrow> string" where
  "get_cache_control name =
     (let suffix = lower (suffix_of name) in
      if suffix \<in> set [''.js'', ''.css'', ''.png'', ''.jpg'', ''.gif'', ''.svg'', ''.ico'',
                        ''.woff'', ''.woff2'', ''.ttf'']
      then ''public, max-age=31536000, immutable''
      else if suffix = ''.html'' then ''public, max-age=0, must-revalidate''
      else if suffix \<in> set [''.json'', ''.xml'', ''.txt''] then ''public, max-age=3600''
      else ''public, max-age=86400'')"

text \<open>
  The fallback table of \<^verbatim>\<open>_get_enhanced_content_type\<close>. \<^verbatim>\<open>mimetypes.guess_type\<close> belongs to
  the standard library and is taken as the parameter \<open>guess\<close>.
\<close>

definition content_types :: "(string \<times> string) list" where
  "content_types =
     [(''.html'', ''text/html; charset=utf-8''),
      (''.css'', ''text/css; charset=utf-8''),
      (''.js'', ''application/javascript; charset=utf-8''),
      (''.mjs'', ''application/javascript; charset=utf-8''),
      (''.jsx'', ''application/javascript; charset=utf-8''),
      (''.ts'', ''application/javascript; charset=utf-8''),
      (''.tsx'', ''application/javascript; charset=utf-8''),
      (''.json'', ''application/json; charset=utf-8''),
      (''.xml'', ''application/xml; charset=utf-8''),
      (''.txt'', ''text/plain; charset=utf-8''),
      (''.md'', ''text/markdown; charset=utf-8''),
      (''.png'', ''image/png''),
      (''.jpg'', ''image/jpeg''),
      (''.jpeg'', ''image/jpeg''),
      (''.gif'', ''image/gif''),
      (''.svg'', ''image/svg+xml''),
      (''.ico'', ''image/x-icon''),
      (''.webp'', ''image/webp''),
      (''.woff'', ''font/woff''),
      (''.woff2'', ''font/woff2''),
      (''.ttf'', ''font/ttf''),
      (''.eot'', ''application/vnd.ms-fontobject'')]"

definition get_enhanced_content_type :: "(string \<Rightarrow> string option) \<Rightarrow> string \<Rightarrow> string" where
  "get_enhanced_content_type guess name =
     (case guess name of
        Some ct \<Rightarrow> if ct \<noteq> [] then ct
                   else (case map_of content_types (lower (suffix_of name)) of
                           Some t \<Rightarrow> t | None \<Rightarrow> ''binary/octet-stream'')
      | None \<Rightarrow> (case map_of content_types (lower (suffix_of name)) of
                   Some t \<Rightarrow> t | None \<Rightarrow> ''binary/octet-stream''))"

section \<open>Framework detection (build\_manager.py)\<close>

text \<open>
  A parsed JSON document. An object is the association list of its members; \<^verbatim>\<open>json.load\<close>
  yields a dict, whose keys are distinct.
\<close>

datatype json =
  JNull | JBool bool | JNum string | JStr string | JArr "json list" | JObj "(string \<times> json) list"

text \<open>\<^verbatim>\<open>package_json.get(key, {})\<close>: only a dict has the method.\<close>

definition py_get :: "json \<Rightarrow> string \<Rightarrow> exn + json" where
  "py_get d key =
     (case d of
        JObj kvs \<Rightarrow> Inr (case map_of kvs key of None \<Rightarrow> JObj [] | Some v \<Rightarrow> v)
      | _ \<Rightarrow> Inl (Exception ''AttributeError''))"

text \<open>The unpacking \<^verbatim>\<open>**v\<close> inside a dict display: only a mapping can be unpacked.\<close>

definition unpack :: "json \<Rightarrow> exn + (string \<times> json) list" where
  "unpack v = (case v of JObj kvs \<Rightarrow> Inr kvs | _ \<Rightarrow> Inl (Exception ''TypeError''))"

text \<open>
  The body of the \<^verbatim>\<open>try\<close> block of \<^verbatim>\<open>_detect_framework_and_build_dir\<close>. The argument is what
  \<^verbatim>\<open>load_json_file(project_dir / 'package.json')\<close> gives: an exception for a missing or
  invalid file, the parsed document otherwise. \<^verbatim>\<open>{**a, **b}\<close> is the map \<open>map_of a ++ map_of b\<close>
  and \<^verbatim>\<open>k in dependencies\<close> asks whether \<open>k\<close> is bound in it.
\<close>

definition detect_body :: "exn + json \<Rightarrow> exn + string \<times> string" where
  "detect_body manifest =
     (case manifest of
        Inl e \<Rightarrow> Inl e
      | Inr package_json \<Rightarrow>
          (case py_get package_json ''dependencies'' of
             Inl e \<Rightarrow> Inl e
           | Inr d1 \<Rightarrow>
               (case unpack d1 of
                  Inl e \<Rightarrow> Inl e
                | Inr a \<Rightarrow>
                    (case py_get package_json ''devDependencies'' of
                       Inl e \<Rightarrow> Inl e
                     | Inr d2 \<Rightarrow>
                         (case unpack d2 of
                            Inl e \<Rightarrow> Inl e
                          | Inr b \<Rightarrow>
                              (let dependencies = map_of a ++ map_of b in
                               if dependencies ''vite'' \<noteq> None then Inr (''vite'', ''dist'')
                               else if dependencies ''next'' \<noteq> None then Inr (''next'', ''.next'')
                               else if dependencies ''@angular/core'' \<noteq> None
                                 then Inr (''angular'', ''dist'')
                               else if dependencies ''vue'' \<noteq> None then Inr (''vue'', ''dist'')
                               else if dependencies ''react-scripts'' \<noteq> None
                                 then Inr (''react'', ''build'')
                               else if dependencies ''react'' \<noteq> None then Inr (''react'', ''build'')
                               else Inr (''node'', ''dist'')))))))"

text \<open>\<^verbatim>\<open>except Exception: return 'react', 'build'\<close>.\<close>

definition detect_framework_and_build_dir :: "exn + json \<Rightarrow> string \<times> string" where
  "detect_framework_and_build_dir manifest =
     (case detect_body manifest of Inl e \<Rightarrow> (''react'', ''build'') | Inr r \<Rightarrow> r)"

text \<open>
  The specification's reading: a fixed priority table over the names declared in the two
  dependency groups, the first entry whose name is declared wins, and \<open>node\<close> is the
  fallback.
\<close>

definition spec_priority_table :: "(string \<times> string \<times> string) list" where
  "spec_priority_table =
     [(''vite'', ''vite'', ''dist''),
      (''next'', ''next'', ''.next''),
      (''@angular/core'', ''angular'', ''dist''),
      (''vue'', ''vue'', ''dist''),
      (''react-scripts'', ''react'', ''build''),
      (''react'', ''react'', ''build'')]"

definition spec_detect :: "string set \<Rightarrow> string \<times> string" where
  "spec_detect declared =
     (case find (\<lambda>(k, r). k \<in> declared) spec_priority_table of
        Some (k, r) \<Rightarrow> r
      | None \<Rightarrow> (''node'', ''dist''))"

text \<open>The two dependency groups of a manifest, when it is an object and both are objects.\<close>

definition groups :: "json \<Rightarrow> ((string \<times> json) list \<times> (string \<times> json) list) option" where
  "groups package_json =
     (case package_json of
        JObj kvs \<Rightarrow>
          (case (case map_of kvs ''dependencies'' of None \<Rightarrow> JObj [] | Some v \<Rightarrow> v) of
             JObj a \<Rightarrow>
               (case (case map_of kvs ''devDependencies'' of None \<Rightarrow> JObj [] | Some v \<Rightarrow> v) of
                  JObj b \<Rightarrow> Some (a, b)
                | _ \<Rightarrow> None)
           | _ \<Rightarrow> None)
      | _ \<Rightarrow> None)"

section \<open>Build executor (build\_manager.py)\<close>

text \<open>
  What \<^verbatim>\<open>_build_with_fallbacks\<close> sees of its environment: the platform (\<^verbatim>\<open>os.name == 'nt'\<close>
  or not), the entries of the project directory by name (a file with its content, or a
  directory, empty or not), the outcome of each external command in the order the
  commands are run (\<open>Some m\<close>: \<^verbatim>\<open>run_command\<close> raises an exception with message \<open>m\<close>, for a
  timeout, a non-zero exit or a missing program; \<open>None\<close>, or no entry left: it returns),
  the commands run so far and the warnings printed so far. The external commands are
  taken not to touch \<open>vite.config.js\<close> or its backup.
\<close>

datatype entry = File string | Dir bool

record build_env =
  windows :: bool
  files :: "string \<rightharpoonup> entry"
  outcomes :: "string option list"
  commands :: "string list list"
  warnings :: "string list"

definition run_command :: "string list \<Rightarrow> build_env \<Rightarrow> (exn + unit) \<times> build_env" where
  "run_command cmd s =
     (case outcomes s of
        [] \<Rightarrow> (Inr (), s\<lparr>commands := commands s @ [cmd]\<rparr>)
      | None # os \<Rightarrow> (Inr (), s\<lparr>outcomes := os, commands := commands s @ [cmd]\<rparr>)
      | Some m # os \<Rightarrow> (Inl (Exception m), s\<lparr>outcomes := os, commands := commands s @ [cmd]\<rparr>))"

definition print_warning :: "string \<Rightarrow> build_env \<Rightarrow> build_env" where
  "print_warning msg s = s\<lparr>warnings := warnings s @ [msg]\<rparr>"

definition exists :: "string \<Rightarrow> build_env \<Rightarrow> bool" where
  "exists path s = (files s path \<noteq> None)"

text \<open>
  \<^verbatim>\<open>Path.rename\<close>, that is \<^verbatim>\<open>os.rename\<close>, and the error it raises, if any. A missing source
  raises. On Windows an existing target raises. On POSIX a file replaces a file and a
  directory replaces an empty directory; a file cannot replace a directory, nor a
  directory a file or a directory that is not empty. The exception is read through the
  name of its class. Errors from permissions or locks are outside the model.
\<close>

definition rename_error :: "string \<Rightarrow> string \<Rightarrow> build_env \<Rightarrow> string option" where
  "rename_error src dst s =
     (case files s src of
        None \<Rightarrow> Some ''FileNotFoundError''
      | Some e \<Rightarrow>
          if src = dst then None
          else
            (case files s dst of
               None \<Rightarrow> None
             | Some d \<Rightarrow>
                 if windows s then Some ''FileExistsError''
                 else
                   (case e of
                      File c \<Rightarrow>
                        (case d of File c' \<Rightarrow> None | Dir em \<Rightarrow> Some ''IsADirectoryError'')
                    | Dir em \<Rightarrow>
                        (case d of
                           File c' \<Rightarrow> Some ''NotADirectoryError''
                         | Dir em' \<Rightarrow> if em' then None else Some ''OSError''))))"

definition rename :: "string \<Rightarrow> string \<Rightarrow> build_env \<Rightarrow> (exn + unit) \<times> build_env" where
  "rename src dst s =
     (case rename_error src dst s of
        Some m \<Rightarrow> (Inl (Exception m), s)
      | None \<Rightarrow>
          (case files s src of
             None \<Rightarrow> (Inr (), s)
           | Some e \<Rightarrow> (Inr (), s\<lparr>files := (files s)(src := None, dst \<mapsto> e)\<rparr>)))"

text \<open>Each strategy returns the new value of \<^verbatim>\<open>build_successful\<close>.\<close>

definition strategy1 :: "build_env \<Rightarrow> bool \<times> build_env" where
  "strategy1 s =
     (case run_command [''npm'', ''run'', ''build''] s of
        (Inr u, s') \<Rightarrow> (True, s')
      | (Inl e, s') \<Rightarrow> (False, print_warning (''Standard build failed: '' @ str e) s'))"

definition framework_command :: "string \<Rightarrow> string list" where
  "framework_command framework =
     (if framework = ''vite'' then [''npx'', ''vite'', ''build'']
      else if framework = ''react'' then [''npx'', ''react-scripts'', ''build'']
      else if framework = ''next'' then [''npx'', ''next'', ''build'']
      else if framework = ''angular'' then [''npx'', ''ng'', ''build'', ''--base-href'', ''./'']
      else [''npm'', ''run'', ''build''])"

definition strategy2 :: "string \<Rightarrow> build_env \<Rightarrow> bool \<times> build_env" where
  "strategy2 framework s =
     (case run_command (framework_command framework) s of
        (Inr u, s') \<Rightarrow> (True, s')
      | (Inl e, s') \<Rightarrow> (False, print_warning (''Framework-specific build failed: '' @ str e) s'))"

definition strategy3 :: "build_env \<Rightarrow> bool \<times> build_env" where
  "strategy3 s =
     (case run_command [''npx'', ''vite'', ''build'', ''--base'', ''./''] s of
        (Inr u, s') \<Rightarrow> (True, s')
      | (Inl e, s') \<Rightarrow> (False, print_warning (''Forced build failed: '' @ str e) s'))"

text \<open>
  The \<^verbatim>\<open>try\<close> block of strategy 4: the value of \<^verbatim>\<open>build_successful\<close> when the block is
  left, how it is left, and the environment.
\<close>

definition strategy4_body :: "build_env \<Rightarrow> bool \<times> (exn + unit) \<times> build_env" where
  "strategy4_body s =
     (case (if exists ''vite.config.js'' s
            then (case rename ''vite.config.js'' ''vite.config.js.backup'' s of
                    (Inl e, s1) \<Rightarrow> (Inl e, s1)
                  | (Inr u, s1) \<Rightarrow> (Inr (Some ''vite.config.js.backup''), s1))
            else (Inr None, s)) of
        (Inl e, s1) \<Rightarrow> (False, Inl e, s1)
      | (Inr backup_config, s1) \<Rightarrow>
          (case run_command [''npx'', ''vite'', ''build'', ''--base'', ''./''] s1 of
             (Inl e, s2) \<Rightarrow> (False, Inl e, s2)
           | (Inr u, s2) \<Rightarrow>
               (case backup_config of
                  None \<Rightarrow> (True, Inr (), s2)
                | Some b \<Rightarrow>
                    if exists b s2
                    then (case rename b ''vite.config.js'' s2 of
                            (Inl e, s3) \<Rightarrow> (True, Inl e, s3)
                          | (Inr u, s3) \<Rightarrow> (True, Inr (), s3))
                    else (True, Inr (), s2))))"

text \<open>
  The \<^verbatim>\<open>except\<close> block of strategy 4, entered with the exception and the current value of
  \<^verbatim>\<open>build_successful\<close>; an exception raised inside it leaves the function.
\<close>

definition strategy4_handler :: "exn \<Rightarrow> bool \<Rightarrow> build_env \<Rightarrow> (exn + bool) \<times> build_env" where
  "strategy4_handler e ok s =
     (let s' = print_warning (''Build without config failed: '' @ str e) s in
      if exists ''vite.config.js.backup'' s'
      then (case rename ''vite.config.js.backup'' ''vite.config.js'' s' of
              (Inl e', s3) \<Rightarrow> (Inl e', s3)
            | (Inr u, s3) \<Rightarrow> (Inr ok, s3))
      else (Inr ok, s'))"

definition strategy4 :: "build_env \<Rightarrow> (exn + bool) \<times> build_env" where
  "strategy4 s =
     (case strategy4_body s of
        (ok, Inr u, s') \<Rightarrow> (Inr ok, s')
      | (ok, Inl e, s') \<Rightarrow> strategy4_handler e ok s')"

definition build_with_fallbacks :: "string \<Rightarrow> build_env \<Rightarrow> (exn + unit) \<times> build_env" where
  "build_with_fallbacks framework s =
     (let (b1, s1) = strategy1 s;
          (b2, s2) = (if \<not> b1 then strategy2 framework s1 else (b1, s1));
          (b3, s3) = (if \<not> b2 \<and> framework = ''vite'' then strategy3 s2 else (b2, s2))
      in case (if \<not> b3 \<and> framework = ''vite'' then strategy4 s3 else (Inr b3, s3)) of
           (Inl e, s4) \<Rightarrow> (Inl e, s4)
         | (Inr b4, s4) \<Rightarrow>
             if \<not> b4 then (Inl (Exception ''All build strategies failed''), s4)
             else (Inr (), s4))"

section \<open>Release store: the object store (aws\_manager.py)\<close>

text \<open>
  The bucket is an association list from keys to objects, with distinct keys; an object
  is its bytes and the two headers the tool stores with it. The manager holds the bucket
  name, the region, the bucket's content, the errors still to come from the object store
  and a log of the requests made. Each request takes the next entry of \<open>faults\<close>:
  \<open>Some m\<close> makes the request raise an error with message \<open>m\<close> and leave the bucket as
  it is; \<open>None\<close>, or no entry left, lets it through. The log records each request and
  whether it failed.
\<close>

record s3_object =
  body :: string
  content_type :: string
  cache_control :: string

datatype s3_call =
  ListObjectsV2 string | DeleteObjects "string list" | CopyObject string string | UploadFile string

record aws =
  bucket_name :: string
  region :: string
  objects :: "(string \<times> s3_object) list"
  faults :: "string option list"
  calls :: "(s3_call \<times> bool) list"

text \<open>
  A request; \<open>refused\<close> is the error the store itself answers with when the request
  cannot be served (a copy from a key that does not exist).
\<close>

definition request :: "s3_call \<Rightarrow> string option \<Rightarrow> aws \<Rightarrow> (exn + unit) \<times> aws" where
  "request c refused s =
     (case faults s of
        Some m # fs \<Rightarrow> (Inl (Exception m), s\<lparr>faults := fs, calls := calls s @ [(c, True)]\<rparr>)
      | _ \<Rightarrow>
          (case refused of
             Some m \<Rightarrow> (Inl (Exception m), s\<lparr>faults := tl (faults s), calls := calls s @ [(c, True)]\<rparr>)
           | None \<Rightarrow> (Inr (), s\<lparr>faults := tl (faults s), calls := calls s @ [(c, False)]\<rparr>)))"

definition keys_with_prefix :: "string \<Rightarrow> aws \<Rightarrow> string list" where
  "keys_with_prefix pfx s = filter (prefix pfx) (map fst (objects s))"

text \<open>
  Consecutive slices of at most \<open>n\<close> elements: \<^verbatim>\<open>xs[i:i+n] for i in range(0, len(xs), n)\<close>.
\<close>

function chunks :: "nat \<Rightarrow> 'a list \<Rightarrow> 'a list list" where
  "chunks n xs = (if n = 0 \<or> xs = [] then [] else take n xs # chunks n (drop n xs))"
  by pat_completeness auto
termination
  by (relation "measure (\<lambda>(n, xs). length xs)") auto

declare chunks.simps [simp del]

text \<open>
  The pages of a paginated listing: at most 1000 entries each, and a single empty page
  when nothing matches. The entries are those of the bucket when the listing starts;
  the requests for the pages are made one by one as the loop advances. The one loop that
  writes while it lists, in \<^verbatim>\<open>_copy_s3_prefix\<close>, is called by \<^verbatim>\<open>activate_version\<close> only, with
  a destination prefix that no listed key can have.
\<close>

definition pages_of :: "'a list \<Rightarrow> 'a list list" where
  "pages_of xs = (if xs = [] then [[]] else chunks 1000 xs)"

subsection \<open>Clearing and copying a prefix\<close>

text \<open>The first loop of \<^verbatim>\<open>_clear_prefix\<close>: one request per page, the keys collected.\<close>

fun collect_pages :: "string \<Rightarrow> string list list \<Rightarrow> aws \<Rightarrow> (exn + string list) \<times> aws" where
  "collect_pages pfx [] s = (Inr [], s)"
| "collect_pages pfx (page # pages) s =
     (case request (ListObjectsV2 pfx) None s of
        (Inl e, s') \<Rightarrow> (Inl e, s')
      | (Inr u, s') \<Rightarrow>
          (case collect_pages pfx pages s' of
             (Inl e, s'') \<Rightarrow> (Inl e, s'')
           | (Inr ks, s'') \<Rightarrow> (Inr (page @ ks), s'')))"

definition delete_objects :: "string list \<Rightarrow> aws \<Rightarrow> (exn + unit) \<times> aws" where
  "delete_objects batch s =
     (case request (DeleteObjects batch) None s of
        (Inl e, s') \<Rightarrow> (Inl e, s')
      | (Inr u, s') \<Rightarrow> (Inr (), s'\<lparr>objects := filter (\<lambda>kv. fst kv \<notin> set batch) (objects s')\<rparr>))"

fun delete_batches :: "string list list \<Rightarrow> aws \<Rightarrow> (exn + unit) \<times> aws" where
  "delete_batches [] s = (Inr (), s)"
| "delete_batches (batch # batches) s =
     (case delete_objects batch s of
        (Inl e, s') \<Rightarrow> (Inl e, s')
      | (Inr u, s') \<Rightarrow> delete_batches batches s')"

text \<open>The \<^verbatim>\<open>try\<close> block of \<^verbatim>\<open>_clear_prefix\<close>.\<close>

definition clear_prefix_body :: "string \<Rightarrow> aws \<Rightarrow> (exn + unit) \<times> aws" where
  "clear_prefix_body pfx s =
     (case collect_pages pfx (pages_of (keys_with_prefix pfx s)) s of
        (Inl e, s') \<Rightarrow> (Inl e, s')
      | (Inr objects_to_delete, s') \<Rightarrow>
          if objects_to_delete \<noteq> [] then delete_batches (chunks 1000 objects_to_delete) s'
          else (Inr (), s'))"

text \<open>\<^verbatim>\<open>except Exception: pass\<close>: whatever the block raised, the function returns.\<close>

definition clear_prefix :: "string \<Rightarrow> aws \<Rightarrow> aws" where
  "clear_prefix pfx s = snd (clear_prefix_body pfx s)"

text \<open>\<^verbatim>\<open>copy_object\<close> with \<^verbatim>\<open>MetadataDirective='COPY'\<close>: the whole object is copied.\<close>

definition copy_object :: "string \<Rightarrow> string \<Rightarrow> aws \<Rightarrow> (exn + unit) \<times> aws" where
  "copy_object source_key dest_key s =
     (case map_of (objects s) source_key of
        None \<Rightarrow>
          (case request (CopyObject source_key dest_key) (Some ''NoSuchKey'') s of
             (Inl e, s') \<Rightarrow> (Inl e, s')
           | (Inr u, s') \<Rightarrow> (Inr (), s'))
      | Some ob \<Rightarrow>
          (case request (CopyObject source_key dest_key) None s of
             (Inl e, s') \<Rightarrow> (Inl e, s')
           | (Inr u, s') \<Rightarrow> (Inr (), s'\<lparr>objects := AList.update dest_key ob (objects s')\<rparr>)))"

text \<open>The inner loop of \<^verbatim>\<open>_copy_s3_prefix\<close>, over the keys of one page.\<close>

fun copy_keys :: "string \<Rightarrow> string \<Rightarrow> string list \<Rightarrow> nat \<Rightarrow> aws \<Rightarrow> (exn + nat) \<times> aws" where
  "copy_keys source_prefix dest_prefix [] copied_files s = (Inr copied_files, s)"
| "copy_keys source_prefix dest_prefix (source_key # ks) copied_files s =
     (case copy_object source_key (dest_prefix @ drop (length source_prefix) source_key) s of
        (Inl e, s') \<Rightarrow> (Inl e, s')
      | (Inr u, s') \<Rightarrow> copy_keys source_prefix dest_prefix ks (copied_files + 1) s')"

text \<open>The outer loop: one request per page, then the copies of that page.\<close>

fun copy_pages ::
  "string \<Rightarrow> string \<Rightarrow> string list list \<Rightarrow> nat \<Rightarrow> aws \<Rightarrow> (exn + nat) \<times> aws" where
  "copy_pages source_prefix dest_prefix [] copied_files s = (Inr copied_files, s)"
| "copy_pages source_prefix dest_prefix (page # pages) copied_files s =
     (case request (ListObjectsV2 source_prefix) None s of
        (Inl e, s') \<Rightarrow> (Inl e, s')
      | (Inr u, s') \<Rightarrow>
          (case copy_keys source_prefix dest_prefix page copied_files s' of
             (Inl e, s'') \<Rightarrow> (Inl e, s'')
           | (Inr n, s'') \<Rightarrow> copy_pages source_prefix dest_prefix pages n s''))"

definition copy_s3_prefix :: "string \<Rightarrow> string \<Rightarrow> aws \<Rightarrow> (exn + nat) \<times> aws" where
  "copy_s3_prefix source_prefix dest_prefix s =
     copy_pages source_prefix dest_prefix (pages_of (keys_with_prefix source_prefix s)) 0 s"

text \<open>
  The content of a bucket after the keys \<open>ks\<close> have been copied one by one from under
  \<open>source_prefix\<close> to under \<open>dest_prefix\<close>: what the copy loop leaves when no request
  fails. It is used to state the theorems, not by the operations.
\<close>

definition copy_all ::
  "string \<Rightarrow> string \<Rightarrow> string list \<Rightarrow> (string \<times> s3_object) list \<Rightarrow> (string \<times> s3_object) list" where
  "copy_all source_prefix dest_prefix ks obs =
     fold (\<lambda>k os. case map_of os k of
                     None \<Rightarrow> os
                   | Some ob \<Rightarrow> AList.update (dest_prefix @ drop (length source_prefix) k) ob os)
       ks obs"

subsection \<open>Activation, status, upload\<close>

definition website_url_of :: "aws \<Rightarrow> string \<Rightarrow> string" where
  "website_url_of s project_name =
     ''http://'' @ bucket_name s @ ''.s3-website.'' @ region s @ ''.amazonaws.com/''
       @ project_name @ ''/current/''"

record result_base =
  version :: string
  website_url :: string

record activation_result = result_base +
  copied_files :: nat

record upload_result = result_base +
  uploaded_files :: nat
  total_size :: nat

definition activate_version ::
  "string \<Rightarrow> string \<Rightarrow> aws \<Rightarrow> (exn + activation_result) \<times> aws" where
  "activate_version project_name ver s =
     (let source_prefix = project_name @ ''/builds/'' @ ver @ ''/'';
          current_prefix = project_name @ ''/current/'';
          s1 = clear_prefix current_prefix s
      in case copy_s3_prefix source_prefix current_prefix s1 of
           (Inl e, s2) \<Rightarrow> (Inl (Exception (''Failed to activate version: '' @ str e)), s2)
         | (Inr n, s2) \<Rightarrow>
             (Inr \<lparr>version = ver, website_url = website_url_of s2 project_name,
                   copied_files = n\<rparr>, s2))"

text \<open>
  The two dicts \<^verbatim>\<open>get_project_status\<close> returns: the status, whose URL is \<^verbatim>\<open>None\<close> when
  nothing is deployed, and the error report.
\<close>

datatype project_status =
  ProjectStatus bool "string option" string string
| ProjectStatusError bool string

fun is_deployed :: "project_status \<Rightarrow> bool" where
  "is_deployed (ProjectStatus d url b r) = d"
| "is_deployed (ProjectStatusError d e) = d"

text \<open>
  \<^verbatim>\<open>list_objects_v2(Prefix=..., MaxKeys=1)\<close>: the \<^verbatim>\<open>Contents\<close> of the response, at most one
  key; the response has no \<^verbatim>\<open>Contents\<close> when no key matches, which reads here as the
  empty list.
\<close>

definition list_objects_v2_max1 :: "string \<Rightarrow> aws \<Rightarrow> (exn + string list) \<times> aws" where
  "list_objects_v2_max1 pfx s =
     (case request (ListObjectsV2 pfx) None s of
        (Inl e, s') \<Rightarrow> (Inl e, s')
      | (Inr u, s') \<Rightarrow> (Inr (take 1 (keys_with_prefix pfx s')), s'))"

definition get_project_status_body ::
  "string \<Rightarrow> aws \<Rightarrow> (exn + project_status) \<times> aws" where
  "get_project_status_body project_name s =
     (case list_objects_v2_max1 (project_name @ ''/current/'') s of
        (Inl e, s') \<Rightarrow> (Inl e, s')
      | (Inr contents, s') \<Rightarrow>
          (let deployed = (contents \<noteq> [] \<and> length contents > 0) in
           (Inr (ProjectStatus deployed
                   (if deployed then Some (website_url_of s' project_name) else None)
                   (bucket_name s') (region s')), s')))"

definition get_project_status :: "string \<Rightarrow> aws \<Rightarrow> (exn + project_status) \<times> aws" where
  "get_project_status project_name s =
     (case get_project_status_body project_name s of
        (Inl e, s') \<Rightarrow> (Inr (ProjectStatusError False (str e)), s')
      | (Inr r, s') \<Rightarrow> (Inr r, s'))"

text \<open>
  A file of the build directory: its path relative to the directory as \<^verbatim>\<open>str\<close> prints it
  (with the separators of the platform), its final component, and its bytes.
\<close>

record local_file =
  relative_path :: string
  name :: string
  data :: string

text \<open>\<^verbatim>\<open>.replace('\\', '/')\<close>, applied to the whole key.\<close>

definition replace_backslash :: "string \<Rightarrow> string" where
  "replace_backslash k = map (\<lambda>c. if c = CHR 0x5C then CHR ''/'' else c) k"

definition upload_file :: "string \<Rightarrow> s3_object \<Rightarrow> aws \<Rightarrow> (exn + unit) \<times> aws" where
  "upload_file s3_key ob s =
     (case request (UploadFile s3_key) None s of
        (Inl e, s') \<Rightarrow> (Inl e, s')
      | (Inr u, s') \<Rightarrow> (Inr (), s'\<lparr>objects := AList.update s3_key ob (objects s')\<rparr>))"

text \<open>The key and the stored object that the body of the upload loop computes for a file.\<close>

definition s3_key :: "string \<Rightarrow> local_file \<Rightarrow> string" where
  "s3_key version_prefix f = replace_backslash (version_prefix @ relative_path f)"

definition stored_object :: "(string \<Rightarrow> string option) \<Rightarrow> local_file \<Rightarrow> s3_object" where
  "stored_object guess f =
     \<lparr>body = data f,
      content_type = get_enhanced_content_type guess (name f),
      cache_control = get_cache_control (name f)\<rparr>"

text \<open>The upload loop, with its two counters.\<close>

fun upload_files ::
  "(string \<Rightarrow> string option) \<Rightarrow> string \<Rightarrow> local_file list \<Rightarrow> nat \<Rightarrow> nat \<Rightarrow> aws
   \<Rightarrow> (exn + nat \<times> nat) \<times> aws" where
  "upload_files guess version_prefix [] uploaded bytes_sent s = (Inr (uploaded, bytes_sent), s)"
| "upload_files guess version_prefix (f # fs) uploaded bytes_sent s =
     (case upload_file (s3_key version_prefix f) (stored_object guess f) s of
        (Inl e, s') \<Rightarrow> (Inl e, s')
      | (Inr u, s') \<Rightarrow>
          upload_files guess version_prefix fs (uploaded + 1) (bytes_sent + length (data f)) s')"

definition deploy_version_body ::
  "(string \<Rightarrow> string option) \<Rightarrow> string \<Rightarrow> string \<Rightarrow> local_file list \<Rightarrow> aws
   \<Rightarrow> (exn + upload_result) \<times> aws" where
  "deploy_version_body guess project_name ver files_to_upload s =
     (let version_prefix = project_name @ ''/builds/'' @ ver @ ''/'' in
      if files_to_upload = [] then (Inl (Exception ''No files found in build directory''), s)
      else
        (case upload_files guess version_prefix files_to_upload 0 0 s of
           (Inl e, s') \<Rightarrow> (Inl e, s')
         | (Inr (uploaded, bytes_sent), s') \<Rightarrow>
             (Inr \<lparr>version = ver, website_url = website_url_of s' project_name,
                   uploaded_files = uploaded, total_size = bytes_sent\<rparr>, s')))"

definition deploy_version ::
  "(string \<Rightarrow> string option) \<Rightarrow> string \<Rightarrow> string \<Rightarrow> local_file list \<Rightarrow> aws
   \<Rightarrow> (exn + upload_result) \<times> aws" where
  "deploy_version guess project_name ver files_to_upload s =
     (case deploy_version_body guess project_name ver files_to_upload s of
        (Inl e, s') \<Rightarrow> (Inl (Exception (''Failed to upload files: '' @ str e)), s')
      | (Inr r, s') \<Rightarrow> (Inr r, s'))"

subsection \<open>Versions and retention\<close>

text \<open>
  A listing with \<^verbatim>\<open>Delimiter='/'\<close>: a key with a slash after the prefix is rolled up into
  its common prefix (\<open>Inr\<close>), up to and including that slash, each common prefix listed
  once; the other keys are listed as they are (\<open>Inl\<close>).
\<close>

definition list_entry :: "string \<Rightarrow> string \<Rightarrow> string + string" where
  "list_entry pfx k =
     (let rest = drop (length pfx) k in
      if CHR ''/'' \<in> set rest then Inr (pfx @ takeWhile (\<lambda>c. c \<noteq> CHR ''/'') rest @ ''/'')
      else Inl k)"

definition list_entries :: "string \<Rightarrow> aws \<Rightarrow> (string + string) list" where
  "list_entries pfx s = remdups (map (list_entry pfx) (keys_with_prefix pfx s))"

text \<open>\<^verbatim>\<open>str.rstrip('/')\<close>.\<close>

definition rstrip_slash :: "string \<Rightarrow> string" where
  "rstrip_slash v = rev (dropWhile (\<lambda>c. c = CHR ''/'') (rev v))"

definition page_versions :: "string \<Rightarrow> (string + string) list \<Rightarrow> string list" where
  "page_versions builds_prefix page =
     filter (\<lambda>v. v \<noteq> [])
       (map (\<lambda>p. rstrip_slash (drop (length builds_prefix) p)) (List.map_filter
          (\<lambda>en. case en of Inl k \<Rightarrow> None | Inr p \<Rightarrow> Some p) page))"

fun versions_pages ::
  "string \<Rightarrow> (string + string) list list \<Rightarrow> string list \<Rightarrow> aws \<Rightarrow> (exn + string list) \<times> aws" where
  "versions_pages builds_prefix [] versions s = (Inr versions, s)"
| "versions_pages builds_prefix (page # pages) versions s =
     (case request (ListObjectsV2 builds_prefix) None s of
        (Inl e, s') \<Rightarrow> (Inl e, s')
      | (Inr u, s') \<Rightarrow>
          versions_pages builds_prefix pages (versions @ page_versions builds_prefix page) s')"

text \<open>
  \<^verbatim>\<open>sorted(versions, reverse=True)\<close> on strings, which Python compares character by
  character, a proper prefix being smaller.
\<close>

definition list_versions :: "string \<Rightarrow> aws \<Rightarrow> (exn + string list) \<times> aws" where
  "list_versions project_name s =
     (let builds_prefix = project_name @ ''/builds/'' in
      case versions_pages builds_prefix (pages_of (list_entries builds_prefix s)) [] s of
        (Inl e, s') \<Rightarrow> (Inl (Exception (''Failed to list versions: '' @ str e)), s')
      | (Inr versions, s') \<Rightarrow> (Inr (rev (sort versions)), s'))"




text \<open>
  A bucket is well formed when its keys are distinct; a run is free of errors when no
  error is left to come; \<open>next_fault\<close> is the error the next request will raise, if any.
\<close>

definition wf_store :: "aws \<Rightarrow> bool" where
  "wf_store s = distinct (map fst (objects s))"

definition error_free :: "aws \<Rightarrow> bool" where
  "error_free s = list_all (\<lambda>f. f = None) (faults s)"

definition next_fault :: "aws \<Rightarrow> string option" where
  "next_fault s = (case faults s of Some m # fs \<Rightarrow> Some m | _ \<Rightarrow> None)"

text \<open>
  The requests of the two phases of \<^verbatim>\<open>activate_version\<close>: the deletion phase lists the
  \<open>current/\<close> prefix and deletes in batches, the copy phase lists the build prefix and
  copies object by object.
\<close>

definition clear_phase_call :: "string \<Rightarrow> s3_call \<Rightarrow> bool" where
  "clear_phase_call current_prefix c =
     (case c of
        ListObjectsV2 pfx \<Rightarrow> pfx = current_prefix
      | DeleteObjects ks \<Rightarrow> True
      | CopyObject a b \<Rightarrow> False
      | UploadFile k \<Rightarrow> False)"

definition copy_phase_call :: "string \<Rightarrow> s3_call \<Rightarrow> bool" where
  "copy_phase_call source_prefix c =
     (case c of
        ListObjectsV2 pfx \<Rightarrow> pfx = source_prefix
      | DeleteObjects ks \<Rightarrow> False
      | CopyObject a b \<Rightarrow> True
      | UploadFile k \<Rightarrow> False)"

text \<open>
  A bucket for examples: project \<open>shop\<close> with two stored versions, the older one active.
\<close>

definition html :: "string \<Rightarrow> s3_object" where
  "html b = \<lparr>body = b, content_type = ''text/html'',
             cache_control = ''public, max-age=0, must-revalidate''\<rparr>"

definition script :: "string \<Rightarrow> s3_object" where
  "script b = \<lparr>body = b, content_type = ''text/javascript'',
               cache_control = ''public, max-age=31536000, immutable''\<rparr>"

definition example_store :: "string option list \<Rightarrow> aws" where
  "example_store fs =
     \<lparr>bucket_name = ''minfy-uzaif-capstone-deployments'', region = ''ap-south-1'',
      objects = [(''shop/current/index.html'', html ''<p>2</p>''),
                 (''shop/current/old.js'', script ''two()''),
                 (''shop/builds/v20250103-000000/index.html'', html ''<p>3</p>''),
                 (''shop/builds/v20250103-000000/assets/app.js'', script ''three()''),
                 (''shop/builds/v20250102-000000/index.html'', html ''<p>2</p>''),
                 (''shop/builds/v20250102-000000/old.js'', script ''two()''),
                 (''shop/builds/v20250101-000000/index.html'', html ''<p>1</p>'')],
      faults = fs, calls = []\<rparr>"

text \<open>
  An empty bucket, a one-page build, a project name with a backslash in it, and a build
  on POSIX with a file whose name has a backslash next to a file in a directory.
\<close>

definition empty_store :: aws where
  "empty_store =
     \<lparr>bucket_name = ''minfy-uzaif-capstone-deployments'', region = ''ap-south-1'',
      objects = [], faults = [], calls = []\<rparr>"

definition one_page :: "local_file list" where
  "one_page = [\<lparr>relative_path = ''index.html'', name = ''index.html'', data = ''<p>hi</p>''\<rparr>]"

definition backslash_project :: string where
  "backslash_project = [CHR ''a'', CHR 0x5C, CHR ''b'']"

definition colliding_build :: "local_file list" where
  "colliding_build =
     [\<lparr>relative_path = [CHR ''j'', CHR ''s'', CHR 0x5C, CHR ''a'', CHR ''.'', CHR ''j'', CHR ''s''],
       name = [CHR ''j'', CHR ''s'', CHR 0x5C, CHR ''a'', CHR ''.'', CHR ''j'', CHR ''s''],
       data = ''AA''\<rparr>,
      \<lparr>relative_path = ''js/a.js'', name = ''a.js'', data = ''BB''\<rparr>]"

text \<open>A build directory for examples, listed with the separators of Windows.\<close>

definition example_build :: "local_file list" where
  "example_build =
     [\<lparr>relative_path = ''index.html'', name = ''index.html'', data = ''<p>4</p>''\<rparr>,
      \<lparr>relative_path = [CHR ''j'', CHR ''s'', CHR 0x5C, CHR ''a'', CHR ''.'', CHR ''j'', CHR ''s''],
       name = ''a.js'', data = ''four()''\<rparr>]"

text \<open>
  The error with which strategy 4 leaves the function: that of the restoring rename in
  its \<^verbatim>\<open>except\<close> block, when the configuration file exists and cannot be moved aside.
\<close>

definition restore_error :: "build_env \<Rightarrow> string option" where
  "restore_error s =
     (if exists ''vite.config.js'' s
         \<and> rename_error ''vite.config.js'' ''vite.config.js.backup'' s \<noteq> None
      then rename_error ''vite.config.js.backup'' ''vite.config.js'' s
      else None)"

text \<open>
  Environments for examples: a project with a vite configuration file, on POSIX; the
  same project on Windows with a backup left behind by an earlier run; and on POSIX
  with a directory in the place of the backup.
\<close>

definition example_env :: "string option list \<Rightarrow> build_env" where
  "example_env os =
     \<lparr>windows = False, files = [''vite.config.js'' \<mapsto> File ''export default {}''],
      outcomes = os, commands = [], warnings = []\<rparr>"

definition example_env_stale :: "string option list \<Rightarrow> build_env" where
  "example_env_stale os =
     \<lparr>windows = True,
      files = [''vite.config.js'' \<mapsto> File ''export default {}'',
               ''vite.config.js.backup'' \<mapsto> File ''old''],
      outcomes = os, commands = [], warnings = []\<rparr>"

definition example_env_dir :: "string option list \<Rightarrow> build_env" where
  "example_env_dir os =
     \<lparr>windows = False,
      files = [''vite.config.js'' \<mapsto> File ''export default {}'',
               ''vite.config.js.backup'' \<mapsto> Dir True],
      outcomes = os, commands = [], warnings = []\<rparr>"

section \<open>Theorems\<close>

subsection \<open>Framework detection\<close>

lemma merged_in: "((map_of a ++ map_of b) k \<noteq> None) = (k \<in> fst ` set a \<union> fst ` set b)"
  by (auto simp: map_add_Some_iff map_of_eq_None_iff)

lemma groups_SomeD:
  assumes "groups pj = Some (a, b)"
  shows "py_get pj ''dependencies'' = Inr (JObj a) \<and> py_get pj ''devDependencies'' = Inr (JObj b)"
proof (cases pj)
  case (JObj kvs)
  let ?d = "case map_of kvs ''dependencies'' of None \<Rightarrow> JObj [] | Some v \<Rightarrow> v"
  let ?e = "case map_of kvs ''devDependencies'' of None \<Rightarrow> JObj [] | Some v \<Rightarrow> v"
  from assms JObj have g: "(case ?d of JObj a \<Rightarrow> (case ?e of JObj b \<Rightarrow> Some (a, b) | _ \<Rightarrow> None) | _ \<Rightarrow> None) = Some (a, b)"
    by (simp add: groups_def)
  then obtain a' where d: "?d = JObj a'"
    by (cases ?d) simp_all
  with g obtain b' where e: "?e = JObj b'"
    by (cases ?e) simp_all
  from g d e have "a' = a" "b' = b" by simp_all
  with d e JObj show ?thesis by (simp add: py_get_def)
qed (use assms in \<open>simp_all add: groups_def\<close>)

lemma detect_body_groups:
  assumes "groups pj = Some (a, b)"
  shows "detect_body (Inr pj) = Inr (spec_detect (fst ` set a \<union> fst ` set b))"
proof -
  have p: "py_get pj ''dependencies'' = Inr (JObj a)" "py_get pj ''devDependencies'' = Inr (JObj b)"
    using groups_SomeD [OF assms] by simp_all
  have u: "unpack (JObj a) = Inr a" "unpack (JObj b) = Inr b"
    by (simp_all add: unpack_def)
  show ?thesis
    unfolding detect_body_def sum.case p u Let_def merged_in
    by (simp add: spec_detect_def spec_priority_table_def)
qed

lemma detect_body_no_groups:
  assumes "groups pj = None"
  shows "\<exists>e. detect_body (Inr pj) = Inl e"
proof (cases pj)
  case (JObj kvs)
  let ?d = "case map_of kvs ''dependencies'' of None \<Rightarrow> JObj [] | Some v \<Rightarrow> v"
  let ?e = "case map_of kvs ''devDependencies'' of None \<Rightarrow> JObj [] | Some v \<Rightarrow> v"
  have pd: "py_get pj ''dependencies'' = Inr ?d" and pe: "py_get pj ''devDependencies'' = Inr ?e"
    using JObj by (simp_all add: py_get_def)
  from assms JObj have g: "(case ?d of JObj a \<Rightarrow> (case ?e of JObj b \<Rightarrow> Some (a, b) | _ \<Rightarrow> None) | _ \<Rightarrow> None) = None"
    by (simp add: groups_def)
  show ?thesis
  proof (cases "\<exists>a. ?d = JObj a")
    case False
    then have "\<exists>e. unpack ?d = Inl e"
      by (cases ?d) (simp_all add: unpack_def)
    then obtain e where "unpack ?d = Inl e" by blast
    then show ?thesis
      unfolding detect_body_def sum.case pd by simp
  next
    case True
    then obtain a where a: "?d = JObj a" by blast
    with g have "\<not> (\<exists>b. ?e = JObj b)"
      by (cases ?e) simp_all
    then have "\<exists>e. unpack ?e = Inl e"
      by (cases ?e) (simp_all add: unpack_def)
    then obtain e where e: "unpack ?e = Inl e" by blast
    have ua: "unpack ?d = Inr a" using a by (simp add: unpack_def)
    show ?thesis
      unfolding detect_body_def sum.case pd pe ua e by simp
  qed
qed (simp_all add: detect_body_def py_get_def)

text \<open>
  C3. For a manifest that is an object whose dependency groups are objects (an absent
  group counts as empty), detection returns the first match of the fixed priority table
  over the names declared in either group, and \<open>(node, dist)\<close> when none of the six names
  is declared. A manifest that cannot be loaded, or that has another shape, gives the
  default \<open>(react, build)\<close>; the function returns a pair in every case.
\<close>

theorem detect_framework_priority:
  "(\<forall>pj a b. groups pj = Some (a, b) \<longrightarrow>
      detect_framework_and_build_dir (Inr pj) = spec_detect (fst ` set a \<union> fst ` set b))
   \<and> (\<forall>e. detect_framework_and_build_dir (Inl e) = (''react'', ''build''))
   \<and> (\<forall>pj. groups pj = None \<longrightarrow>
         detect_framework_and_build_dir (Inr pj) = (''react'', ''build''))"
proof (intro conjI allI impI)
  fix pj a b
  assume "groups pj = Some (a, b)"
  then show "detect_framework_and_build_dir (Inr pj) = spec_detect (fst ` set a \<union> fst ` set b)"
    by (simp add: detect_framework_and_build_dir_def detect_body_groups)
next
  fix e
  show "detect_framework_and_build_dir (Inl e) = (''react'', ''build'')"
    by (simp add: detect_framework_and_build_dir_def detect_body_def)
next
  fix pj
  assume "groups pj = None"
  then obtain e where "detect_body (Inr pj) = Inl e"
    using detect_body_no_groups by blast
  then show "detect_framework_and_build_dir (Inr pj) = (''react'', ''build'')"
    by (simp add: detect_framework_and_build_dir_def)
qed

theorem detect_framework_priority_witness:
  "groups (JObj [(''dependencies'', JObj [(''react'', JStr ''^18.0.0'')]),
                 (''devDependencies'', JObj [(''vite'', JStr ''^5.0.0'')])])
     = Some ([(''react'', JStr ''^18.0.0'')], [(''vite'', JStr ''^5.0.0'')])
   \<and> detect_framework_and_build_dir
        (Inr (JObj [(''dependencies'', JObj [(''react'', JStr ''^18.0.0'')]),
                    (''devDependencies'', JObj [(''vite'', JStr ''^5.0.0'')])]))
     = (''vite'', ''dist'')
   \<and> groups (JObj [(''dependencies'', JNull)]) = None
   \<and> detect_framework_and_build_dir (Inr (JObj [(''dependencies'', JNull)])) = (''react'', ''build'')"
proof -
  let ?pj = "JObj [(''dependencies'', JObj [(''react'', JStr ''^18.0.0'')]),
                   (''devDependencies'', JObj [(''vite'', JStr ''^5.0.0'')])]"
  have g: "groups ?pj = Some ([(''react'', JStr ''^18.0.0'')], [(''vite'', JStr ''^5.0.0'')])"
    by (simp add: groups_def)
  have n: "groups (JObj [(''dependencies'', JNull)]) = None"
    by (simp add: groups_def)
  from detect_framework_priority g
  have "detect_framework_and_build_dir (Inr ?pj)
          = spec_detect (fst ` set [(''react'', JStr ''^18.0.0'')] \<union> fst ` set [(''vite'', JStr ''^5.0.0'')])"
    by blast
  moreover from detect_framework_priority n
  have "detect_framework_and_build_dir (Inr (JObj [(''dependencies'', JNull)])) = (''react'', ''build'')"
    by blast
  ultimately show ?thesis
    using g n by (simp add: spec_detect_def spec_priority_table_def)
qed

subsection \<open>Build executor\<close>

lemma run_command_files:
  "files (snd (run_command cmd s)) = files s" "windows (snd (run_command cmd s)) = windows s"
  by (simp_all add: run_command_def split: list.splits option.splits)

lemma run_command_warnings: "warnings (snd (run_command cmd s)) = warnings s"
  by (simp add: run_command_def split: list.splits option.splits)

lemma run_command_fail:
  "outcomes s = Some m # rest \<Longrightarrow>
   run_command cmd s = (Inl (Exception m), s\<lparr>outcomes := rest, commands := commands s @ [cmd]\<rparr>)"
  by (simp add: run_command_def)

lemma run_command_kept:
  assumes "run_command cmd s = (r, s')"
  shows "files s' = files s" and "windows s' = windows s" and "warnings s' = warnings s"
  using run_command_files [of cmd s] run_command_warnings [of cmd s] assms by simp_all

lemma rename_error_cong:
  assumes "files t = files s" and "windows t = windows s"
  shows "rename_error a b t = rename_error a b s"
  unfolding rename_error_def assms by (rule refl)

lemma restore_error_cong:
  assumes "files t = files s" and "windows t = windows s"
  shows "restore_error t = restore_error s"
  unfolding restore_error_def exists_def rename_error_cong [OF assms] assms(1) by (rule refl)

lemma rename_ok:
  "rename_error src dst s = None \<Longrightarrow> files s src = Some e \<Longrightarrow>
   rename src dst s = (Inr (), s\<lparr>files := (files s)(src := None, dst \<mapsto> e)\<rparr>)"
  by (simp add: rename_def)

lemma rename_fail:
  "rename_error src dst s = Some m \<Longrightarrow> rename src dst s = (Inl (Exception m), s)"
  by (simp add: rename_def)

lemma rename_error_free_target:
  "files s src = Some e \<Longrightarrow> files s dst = None \<Longrightarrow> rename_error src dst s = None"
  by (simp add: rename_error_def)

lemma rename_error_target:
  "files s src = Some e \<Longrightarrow> src \<noteq> dst \<Longrightarrow> rename_error src dst s = Some m \<Longrightarrow>
   files s dst \<noteq> None"
  by (auto simp: rename_error_def split: option.splits)

lemma blocked_restore_fails:
  assumes "files s ''vite.config.js'' = Some (File c)"
    and "rename_error ''vite.config.js'' ''vite.config.js.backup'' s = Some m"
  shows "\<exists>m'. rename_error ''vite.config.js.backup'' ''vite.config.js'' s = Some m'"
proof -
  have "files s ''vite.config.js.backup'' \<noteq> None"
    using rename_error_target [OF assms(1) _ assms(2)] by simp
  then obtain d where d: "files s ''vite.config.js.backup'' = Some d"
    by auto
  show ?thesis
  proof (cases "windows s")
    case True
    then show ?thesis
      using d assms(1) by (simp add: rename_error_def)
  next
    case False
    then show ?thesis
      using d assms by (cases d) (simp_all add: rename_error_def)
  qed
qed

lemma handler_restore:
  assumes "files t ''vite.config.js.backup'' = Some e" and "files t ''vite.config.js'' = None"
  shows "strategy4_handler x ok t =
     (Inr ok, t\<lparr>warnings := warnings t @ [''Build without config failed: '' @ str x],
                files := (files t)(''vite.config.js.backup'' := None, ''vite.config.js'' \<mapsto> e)\<rparr>)"
proof -
  let ?t = "print_warning (''Build without config failed: '' @ str x) t"
  have f: "files ?t = files t" "windows ?t = windows t"
    by (simp_all add: print_warning_def)
  have "rename_error ''vite.config.js.backup'' ''vite.config.js'' ?t = None"
    using assms f by (simp add: rename_error_free_target)
  then have "rename ''vite.config.js.backup'' ''vite.config.js'' ?t =
      (Inr (), ?t\<lparr>files := (files ?t)(''vite.config.js.backup'' := None, ''vite.config.js'' \<mapsto> e)\<rparr>)"
    using assms(1) f by (simp add: rename_ok)
  then show ?thesis
    unfolding strategy4_handler_def Let_def
    using assms(1) f by (simp add: exists_def print_warning_def)
qed

lemma handler_no_backup:
  assumes "files t ''vite.config.js.backup'' = None"
  shows "strategy4_handler x ok t =
     (Inr ok, t\<lparr>warnings := warnings t @ [''Build without config failed: '' @ str x]\<rparr>)"
  using assms by (simp add: strategy4_handler_def exists_def print_warning_def)

lemma handler_blocked:
  assumes "files t ''vite.config.js.backup'' \<noteq> None"
    and "rename_error ''vite.config.js.backup'' ''vite.config.js'' t = Some m'"
  shows "strategy4_handler x ok t =
     (Inl (Exception m'), t\<lparr>warnings := warnings t @ [''Build without config failed: '' @ str x]\<rparr>)"
proof -
  let ?t = "print_warning (''Build without config failed: '' @ str x) t"
  have f: "files ?t = files t" "windows ?t = windows t"
    by (simp_all add: print_warning_def)
  have "rename_error ''vite.config.js.backup'' ''vite.config.js'' ?t = Some m'"
    using assms(2) rename_error_cong [OF f] by simp
  then have "rename ''vite.config.js.backup'' ''vite.config.js'' ?t = (Inl (Exception m'), ?t)"
    by (rule rename_fail)
  then show ?thesis
    unfolding strategy4_handler_def Let_def
    using assms(1) f by (simp add: exists_def print_warning_def)
qed

lemma handler_unblocked:
  assumes "files t ''vite.config.js.backup'' = Some e"
    and "rename_error ''vite.config.js.backup'' ''vite.config.js'' t = None"
  shows "fst (strategy4_handler x ok t) = Inr ok"
    and "warnings (snd (strategy4_handler x ok t)) =
           warnings t @ [''Build without config failed: '' @ str x]"
proof -
  let ?t = "print_warning (''Build without config failed: '' @ str x) t"
  have f: "files ?t = files t" "windows ?t = windows t"
    by (simp_all add: print_warning_def)
  have "rename_error ''vite.config.js.backup'' ''vite.config.js'' ?t = None"
    using assms(2) rename_error_cong [OF f] by simp
  then have r: "rename ''vite.config.js.backup'' ''vite.config.js'' ?t =
      (Inr (), ?t\<lparr>files := (files ?t)(''vite.config.js.backup'' := None, ''vite.config.js'' \<mapsto> e)\<rparr>)"
    using assms(1) f by (simp add: rename_ok)
  have h: "strategy4_handler x ok t =
      (Inr ok, ?t\<lparr>files := (files ?t)(''vite.config.js.backup'' := None, ''vite.config.js'' \<mapsto> e)\<rparr>)"
    unfolding strategy4_handler_def Let_def r
    using assms(1) f by (simp add: exists_def)
  show "fst (strategy4_handler x ok t) = Inr ok"
    by (simp add: h)
  show "warnings (snd (strategy4_handler x ok t)) =
           warnings t @ [''Build without config failed: '' @ str x]"
    by (simp add: h print_warning_def)
qed
lemma strategy1_kept:
  "files (snd (strategy1 s)) = files s" "windows (snd (strategy1 s)) = windows s"
proof -
  obtain r s' where rc: "run_command [''npm'', ''run'', ''build''] s = (r, s')"
    by (cases "run_command [''npm'', ''run'', ''build''] s")
  note k = run_command_kept [OF rc]
  show "files (snd (strategy1 s)) = files s"
    using k by (cases r) (simp_all add: strategy1_def rc print_warning_def)
  show "windows (snd (strategy1 s)) = windows s"
    using k by (cases r) (simp_all add: strategy1_def rc print_warning_def)
qed

lemma strategy2_kept:
  "files (snd (strategy2 fw s)) = files s" "windows (snd (strategy2 fw s)) = windows s"
proof -
  obtain r s' where rc: "run_command (framework_command fw) s = (r, s')"
    by (cases "run_command (framework_command fw) s")
  note k = run_command_kept [OF rc]
  show "files (snd (strategy2 fw s)) = files s"
    using k by (cases r) (simp_all add: strategy2_def rc print_warning_def)
  show "windows (snd (strategy2 fw s)) = windows s"
    using k by (cases r) (simp_all add: strategy2_def rc print_warning_def)
qed

lemma strategy3_kept:
  "files (snd (strategy3 s)) = files s" "windows (snd (strategy3 s)) = windows s"
proof -
  obtain r s' where rc: "run_command [''npx'', ''vite'', ''build'', ''--base'', ''./''] s = (r, s')"
    by (cases "run_command [''npx'', ''vite'', ''build'', ''--base'', ''./''] s")
  note k = run_command_kept [OF rc]
  show "files (snd (strategy3 s)) = files s"
    using k by (cases r) (simp_all add: strategy3_def rc print_warning_def)
  show "windows (snd (strategy3 s)) = windows s"
    using k by (cases r) (simp_all add: strategy3_def rc print_warning_def)
qed

lemma strategy1_fail:
  "outcomes s = Some m # rest \<Longrightarrow>
   strategy1 s = (False, s\<lparr>outcomes := rest,
     commands := commands s @ [[''npm'', ''run'', ''build'']],
     warnings := warnings s @ [''Standard build failed: '' @ m]\<rparr>)"
  by (simp add: strategy1_def run_command_fail print_warning_def)

lemma strategy2_fail:
  "outcomes s = Some m # rest \<Longrightarrow>
   strategy2 fw s = (False, s\<lparr>outcomes := rest,
     commands := commands s @ [framework_command fw],
     warnings := warnings s @ [''Framework-specific build failed: '' @ m]\<rparr>)"
  by (simp add: strategy2_def run_command_fail print_warning_def)

lemma strategy3_fail:
  "outcomes s = Some m # rest \<Longrightarrow>
   strategy3 s = (False, s\<lparr>outcomes := rest,
     commands := commands s @ [[''npx'', ''vite'', ''build'', ''--base'', ''./'']],
     warnings := warnings s @ [''Forced build failed: '' @ m]\<rparr>)"
  by (simp add: strategy3_def run_command_fail print_warning_def)

text \<open>Strategy 4 when there is no configuration file.\<close>

lemma strategy4_body_no_config:
  assumes "files s ''vite.config.js'' = None"
    and "run_command [''npx'', ''vite'', ''build'', ''--base'', ''./''] s = (r, s2)"
  shows "strategy4_body s = (case r of Inl e \<Rightarrow> (False, Inl e, s2) | Inr u \<Rightarrow> (True, Inr (), s2))"
  using assms by (cases r) (simp_all add: strategy4_body_def exists_def)

text \<open>Strategy 4 when the configuration file cannot be moved aside.\<close>

lemma strategy4_body_blocked:
  assumes "files s ''vite.config.js'' = Some e"
    and "rename_error ''vite.config.js'' ''vite.config.js.backup'' s = Some m"
  shows "strategy4_body s = (False, Inl (Exception m), s)"
  using assms by (simp add: strategy4_body_def exists_def rename_fail)

text \<open>Strategy 4 when the configuration file is moved aside.\<close>

lemma strategy4_body_moved:
  assumes "files s ''vite.config.js'' = Some e"
    and "rename_error ''vite.config.js'' ''vite.config.js.backup'' s = None"
    and "run_command [''npx'', ''vite'', ''build'', ''--base'', ''./'']
           (s\<lparr>files := (files s)(''vite.config.js'' := None, ''vite.config.js.backup'' \<mapsto> e)\<rparr>)
         = (r, s2)"
  shows "strategy4_body s =
     (case r of
        Inl x \<Rightarrow> (False, Inl x, s2)
      | Inr u \<Rightarrow> (True, Inr (),
          s2\<lparr>files := (files s2)(''vite.config.js.backup'' := None, ''vite.config.js'' \<mapsto> e)\<rparr>))"
    and "files s2 ''vite.config.js.backup'' = Some e"
    and "files s2 ''vite.config.js'' = None"
proof -
  let ?s1 = "s\<lparr>files := (files s)(''vite.config.js'' := None, ''vite.config.js.backup'' \<mapsto> e)\<rparr>"
  have mv: "rename ''vite.config.js'' ''vite.config.js.backup'' s = (Inr (), ?s1)"
    by (rule rename_ok [OF assms(2,1)])
  have f2: "files s2 = (files s)(''vite.config.js'' := None, ''vite.config.js.backup'' \<mapsto> e)"
    using run_command_kept(1) [OF assms(3)] by simp
  show b: "files s2 ''vite.config.js.backup'' = Some e"
    by (simp add: f2)
  show c: "files s2 ''vite.config.js'' = None"
    by (simp add: f2)
  have rb: "rename ''vite.config.js.backup'' ''vite.config.js'' s2 =
      (Inr (), s2\<lparr>files := (files s2)(''vite.config.js.backup'' := None, ''vite.config.js'' \<mapsto> e)\<rparr>)"
    by (rule rename_ok [OF rename_error_free_target [OF b c] b])
  show "strategy4_body s =
     (case r of
        Inl x \<Rightarrow> (False, Inl x, s2)
      | Inr u \<Rightarrow> (True, Inr (),
          s2\<lparr>files := (files s2)(''vite.config.js.backup'' := None, ''vite.config.js'' \<mapsto> e)\<rparr>))"
  proof (cases r)
    case (Inl x)
    then show ?thesis
      unfolding strategy4_body_def mv using assms(1,3)
      by (simp add: exists_def)
  next
    case (Inr u)
    then show ?thesis
      unfolding strategy4_body_def mv using assms(1,3) b rb
      by (simp add: exists_def)
  qed
qed

lemma strategy4_restores:
  assumes "files s ''vite.config.js'' = Some (File c)"
  shows "files (snd (strategy4 s)) ''vite.config.js'' = Some (File c)"
proof (cases "rename_error ''vite.config.js'' ''vite.config.js.backup'' s")
  case None
  let ?s1 = "s\<lparr>files := (files s)(''vite.config.js'' := None,
      ''vite.config.js.backup'' \<mapsto> File c)\<rparr>"
  obtain r s2 where rc: "run_command [''npx'', ''vite'', ''build'', ''--base'', ''./''] ?s1 = (r, s2)"
    by (cases "run_command [''npx'', ''vite'', ''build'', ''--base'', ''./''] ?s1")
  note m = strategy4_body_moved [OF assms None rc]
  show ?thesis
  proof (cases r)
    case (Inl x)
    then have "strategy4 s = strategy4_handler x False s2"
      unfolding strategy4_def m(1) by simp
    then show ?thesis
      using handler_restore [OF m(2,3), of x False] by simp
  next
    case (Inr u)
    then show ?thesis
      unfolding strategy4_def m(1) by simp
  qed
next
  case (Some m)
  have b: "files s ''vite.config.js.backup'' \<noteq> None"
    using rename_error_target [OF assms _ Some] by simp
  obtain m' where m': "rename_error ''vite.config.js.backup'' ''vite.config.js'' s = Some m'"
    using blocked_restore_fails [OF assms Some] by blast
  have "strategy4 s = strategy4_handler (Exception m) False s"
    unfolding strategy4_def strategy4_body_blocked [OF assms Some] by simp
  then show ?thesis
    using handler_blocked [OF b m', of "Exception m" False] assms by simp
qed

lemma strategy4_removes_backup:
  assumes "files s ''vite.config.js'' = Some e" and "files s ''vite.config.js.backup'' = None"
  shows "files (snd (strategy4 s)) ''vite.config.js.backup'' = None"
    and "\<exists>ok. fst (strategy4 s) = Inr ok"
proof -
  let ?s1 = "s\<lparr>files := (files s)(''vite.config.js'' := None,
      ''vite.config.js.backup'' \<mapsto> e)\<rparr>"
  have n: "rename_error ''vite.config.js'' ''vite.config.js.backup'' s = None"
    by (rule rename_error_free_target [OF assms])
  obtain r s2 where rc: "run_command [''npx'', ''vite'', ''build'', ''--base'', ''./''] ?s1 = (r, s2)"
    by (cases "run_command [''npx'', ''vite'', ''build'', ''--base'', ''./''] ?s1")
  note m = strategy4_body_moved [OF assms(1) n rc]
  have both: "files (snd (strategy4 s)) ''vite.config.js.backup'' = None
      \<and> (\<exists>ok. fst (strategy4 s) = Inr ok)"
  proof (cases r)
    case (Inl x)
    then have "strategy4 s = strategy4_handler x False s2"
      unfolding strategy4_def m(1) by simp
    then show ?thesis
      using handler_restore [OF m(2,3), of x False] by auto
  next
    case (Inr u)
    then show ?thesis
      unfolding strategy4_def m(1) by auto
  qed
  show "files (snd (strategy4 s)) ''vite.config.js.backup'' = None"
    using both by simp
  show "\<exists>ok. fst (strategy4 s) = Inr ok"
    using both by simp
qed

lemma handler_free_config:
  assumes "files t ''vite.config.js'' = None"
  shows "fst (strategy4_handler x ok t) = Inr ok"
    and "warnings (snd (strategy4_handler x ok t)) =
           warnings t @ [''Build without config failed: '' @ str x]"
proof -
  have both: "fst (strategy4_handler x ok t) = Inr ok
      \<and> warnings (snd (strategy4_handler x ok t)) =
           warnings t @ [''Build without config failed: '' @ str x]"
  proof (cases "files t ''vite.config.js.backup''")
    case None
    then show ?thesis by (simp add: handler_no_backup)
  next
    case (Some e)
    then show ?thesis using assms by (simp add: handler_restore)
  qed
  show "fst (strategy4_handler x ok t) = Inr ok" using both by simp
  show "warnings (snd (strategy4_handler x ok t)) =
           warnings t @ [''Build without config failed: '' @ str x]" using both by simp
qed

lemma strategy4_fail:
  assumes "outcomes s = Some m # rest"
  shows "fst (strategy4 s) =
           (case restore_error s of Some m' \<Rightarrow> Inl (Exception m') | None \<Rightarrow> Inr False)"
    and "\<exists>x. warnings (snd (strategy4 s)) = warnings s @ [''Build without config failed: '' @ x]"
proof -
  let ?cmd = "[''npx'', ''vite'', ''build'', ''--base'', ''./'']"
  have both: "fst (strategy4 s) =
           (case restore_error s of Some m' \<Rightarrow> Inl (Exception m') | None \<Rightarrow> Inr False)
     \<and> (\<exists>x. warnings (snd (strategy4 s)) = warnings s @ [''Build without config failed: '' @ x])"
  proof (cases "files s ''vite.config.js''")
    case None
    let ?s2 = "s\<lparr>outcomes := rest, commands := commands s @ [?cmd]\<rparr>"
    have rc: "run_command ?cmd s = (Inl (Exception m), ?s2)"
      by (rule run_command_fail [OF assms])
    have body: "strategy4_body s = (False, Inl (Exception m), ?s2)"
      using strategy4_body_no_config [OF None rc] by simp
    have c2: "files ?s2 ''vite.config.js'' = None"
      using None by simp
    have re: "restore_error s = None"
      using None by (simp add: restore_error_def exists_def)
    have "strategy4 s = strategy4_handler (Exception m) False ?s2"
      unfolding strategy4_def body by simp
    then show ?thesis
      using handler_free_config [OF c2, of "Exception m" False] re by simp
  next
    case (Some e)
    show ?thesis
    proof (cases "rename_error ''vite.config.js'' ''vite.config.js.backup'' s")
      case None
      let ?s1 = "s\<lparr>files := (files s)(''vite.config.js'' := None,
          ''vite.config.js.backup'' \<mapsto> e)\<rparr>"
      let ?s2 = "?s1\<lparr>outcomes := rest, commands := commands ?s1 @ [?cmd]\<rparr>"
      have o1: "outcomes ?s1 = Some m # rest"
        using assms by simp
      have rc: "run_command ?cmd ?s1 = (Inl (Exception m), ?s2)"
        by (rule run_command_fail [OF o1])
      note mv = strategy4_body_moved [OF Some None rc]
      have re: "restore_error s = None"
        using None by (simp add: restore_error_def)
      have "strategy4 s = strategy4_handler (Exception m) False ?s2"
        unfolding strategy4_def mv(1) by simp
      then show ?thesis
        using handler_free_config [OF mv(3), of "Exception m" False] re by simp
    next
      case m0: (Some m0)
      have b: "files s ''vite.config.js.backup'' \<noteq> None"
        using rename_error_target [OF Some _ m0] by simp
      have re: "restore_error s = rename_error ''vite.config.js.backup'' ''vite.config.js'' s"
        using Some m0 by (simp add: restore_error_def exists_def)
      have s4: "strategy4 s = strategy4_handler (Exception m0) False s"
        unfolding strategy4_def strategy4_body_blocked [OF Some m0] by simp
      show ?thesis
      proof (cases "rename_error ''vite.config.js.backup'' ''vite.config.js'' s")
        case None
        obtain d where d: "files s ''vite.config.js.backup'' = Some d"
          using b by auto
        show ?thesis
          unfolding s4 re None
          using handler_unblocked [OF d None, of "Exception m0" False] by simp
      next
        case m': (Some m')
        show ?thesis
          unfolding s4 re m'
          using handler_blocked [OF b m', of "Exception m0" False] by simp
      qed
    qed
  qed
  show "fst (strategy4 s) =
           (case restore_error s of Some m' \<Rightarrow> Inl (Exception m') | None \<Rightarrow> Inr False)"
    using both by simp
  show "\<exists>x. warnings (snd (strategy4 s)) = warnings s @ [''Build without config failed: '' @ x]"
    using both by simp
qed

lemma strategy4_raise:
  assumes "fst (strategy4 s) = Inl x"
  shows "\<exists>m. restore_error s = Some m \<and> x = Exception m"
proof (cases "files s ''vite.config.js''")
  case None
  let ?cmd = "[''npx'', ''vite'', ''build'', ''--base'', ''./'']"
  obtain r s2 where rc: "run_command ?cmd s = (r, s2)"
    by (cases "run_command ?cmd s")
  have c2: "files s2 ''vite.config.js'' = None"
    using run_command_kept(1) [OF rc] None by simp
  note body = strategy4_body_no_config [OF None rc]
  show ?thesis
  proof (cases r)
    case (Inl e)
    then have "strategy4 s = strategy4_handler e False s2"
      unfolding strategy4_def body by simp
    then show ?thesis
      using handler_free_config(1) [OF c2, of e False] assms by simp
  next
    case (Inr u)
    then have "fst (strategy4 s) = Inr True"
      unfolding strategy4_def body by simp
    then show ?thesis using assms by simp
  qed
next
  case (Some e)
  show ?thesis
  proof (cases "rename_error ''vite.config.js'' ''vite.config.js.backup'' s")
    case None
    let ?cmd = "[''npx'', ''vite'', ''build'', ''--base'', ''./'']"
    let ?s1 = "s\<lparr>files := (files s)(''vite.config.js'' := None,
        ''vite.config.js.backup'' \<mapsto> e)\<rparr>"
    obtain r s2 where rc: "run_command ?cmd ?s1 = (r, s2)"
      by (cases "run_command ?cmd ?s1")
    note mv = strategy4_body_moved [OF Some None rc]
    show ?thesis
    proof (cases r)
      case (Inl y)
      then have "strategy4 s = strategy4_handler y False s2"
        unfolding strategy4_def mv(1) by simp
      then show ?thesis
        using handler_free_config(1) [OF mv(3), of y False] assms by simp
    next
      case (Inr u)
      then have "fst (strategy4 s) = Inr True"
        unfolding strategy4_def mv(1) by simp
      then show ?thesis using assms by simp
    qed
  next
    case m0: (Some m0)
    have b: "files s ''vite.config.js.backup'' \<noteq> None"
      using rename_error_target [OF Some _ m0] by simp
    have re: "restore_error s = rename_error ''vite.config.js.backup'' ''vite.config.js'' s"
      using Some m0 by (simp add: restore_error_def exists_def)
    have s4: "strategy4 s = strategy4_handler (Exception m0) False s"
      unfolding strategy4_def strategy4_body_blocked [OF Some m0] by simp
    show ?thesis
    proof (cases "rename_error ''vite.config.js.backup'' ''vite.config.js'' s")
      case None
      obtain d where d: "files s ''vite.config.js.backup'' = Some d"
        using b by auto
      show ?thesis
        using handler_unblocked(1) [OF d None, of "Exception m0" False] assms
        unfolding s4 by simp
    next
      case m': (Some m')
      show ?thesis
        using handler_blocked [OF b m', of "Exception m0" False] assms
        unfolding s4 re m' by simp
    qed
  qed
qed

lemma restore_error_names:
  "restore_error s = Some m \<Longrightarrow>
   m \<in> set [''FileNotFoundError'', ''FileExistsError'', ''IsADirectoryError'',
             ''NotADirectoryError'', ''OSError'']"
  by (auto simp: restore_error_def rename_error_def split: option.splits if_splits entry.splits)

text \<open>The ladder up to strategy 3 leaves the files and the platform as they are.\<close>

lemma ladder_prefix:
  obtains b3 s3 where
    "build_with_fallbacks fw s =
       (case (if \<not> b3 \<and> fw = ''vite'' then strategy4 s3 else (Inr b3, s3)) of
          (Inl e, s4) \<Rightarrow> (Inl e, s4)
        | (Inr b4, s4) \<Rightarrow>
            if \<not> b4 then (Inl (Exception ''All build strategies failed''), s4)
            else (Inr (), s4))"
    and "files s3 = files s" and "windows s3 = windows s"
proof -
  obtain b1 s1 where r1: "strategy1 s = (b1, s1)"
    by (cases "strategy1 s")
  have k1: "files s1 = files s" "windows s1 = windows s"
    using strategy1_kept [of s] r1 by simp_all
  obtain b2 s2 where r2: "(if \<not> b1 then strategy2 fw s1 else (b1, s1)) = (b2, s2)"
    by (cases "if \<not> b1 then strategy2 fw s1 else (b1, s1)")
  have k2: "files s2 = files s \<and> windows s2 = windows s"
  proof (cases b1)
    case True
    then show ?thesis using r2 k1 by simp
  next
    case False
    then have "strategy2 fw s1 = (b2, s2)" using r2 by simp
    then show ?thesis using strategy2_kept [of fw s1] k1 by simp
  qed
  obtain b3 s3 where r3: "(if \<not> b2 \<and> fw = ''vite'' then strategy3 s2 else (b2, s2)) = (b3, s3)"
    by (cases "if \<not> b2 \<and> fw = ''vite'' then strategy3 s2 else (b2, s2)")
  have k3: "files s3 = files s \<and> windows s3 = windows s"
  proof (cases "\<not> b2 \<and> fw = ''vite''")
    case True
    then have "strategy3 s2 = (b3, s3)" using r3 by simp
    then show ?thesis using strategy3_kept [of s2] k2 by simp
  next
    case False
    then have "s3 = s2" using r3 by auto
    then show ?thesis using k2 by simp
  qed
  have "build_with_fallbacks fw s =
       (case (if \<not> b3 \<and> fw = ''vite'' then strategy4 s3 else (Inr b3, s3)) of
          (Inl e, s4) \<Rightarrow> (Inl e, s4)
        | (Inr b4, s4) \<Rightarrow>
            if \<not> b4 then (Inl (Exception ''All build strategies failed''), s4)
            else (Inr (), s4))"
    unfolding build_with_fallbacks_def r1 Let_def prod.case r2 r3 by (rule refl)
  then show ?thesis
    using that k3 by blast
qed

lemma build_with_fallbacks_restores:
  assumes "files s ''vite.config.js'' = Some (File c)"
  shows "files (snd (build_with_fallbacks fw s)) ''vite.config.js'' = Some (File c)"
proof -
  obtain b3 s3 where
    bw: "build_with_fallbacks fw s =
       (case (if \<not> b3 \<and> fw = ''vite'' then strategy4 s3 else (Inr b3, s3)) of
          (Inl e, s4) \<Rightarrow> (Inl e, s4)
        | (Inr b4, s4) \<Rightarrow>
            if \<not> b4 then (Inl (Exception ''All build strategies failed''), s4)
            else (Inr (), s4))"
    and k: "files s3 = files s"
    by (rule ladder_prefix)
  obtain r4 s4 where r4: "(if \<not> b3 \<and> fw = ''vite'' then strategy4 s3 else (Inr b3, s3)) = (r4, s4)"
    by (cases "if \<not> b3 \<and> fw = ''vite'' then strategy4 s3 else (Inr b3, s3)")
  have f4: "files s4 ''vite.config.js'' = Some (File c)"
  proof (cases "\<not> b3 \<and> fw = ''vite''")
    case True
    then have "strategy4 s3 = (r4, s4)" using r4 by simp
    moreover have "files s3 ''vite.config.js'' = Some (File c)" using k assms by simp
    ultimately show ?thesis using strategy4_restores [of s3 c] by simp
  next
    case False
    then have "s4 = s3" using r4 by auto
    then show ?thesis using k assms by simp
  qed
  have "snd (build_with_fallbacks fw s) = s4"
    unfolding bw r4 by (cases r4) simp_all
  then show ?thesis using f4 by simp
qed

lemma build_all_fail_other:
  assumes "fw \<noteq> ''vite''" and "outcomes s = Some m1 # Some m2 # rest"
  shows "build_with_fallbacks fw s =
     (Inl (Exception ''All build strategies failed''),
      s\<lparr>outcomes := rest,
        commands := commands s @ [[''npm'', ''run'', ''build''], framework_command fw],
        warnings := warnings s @ [''Standard build failed: '' @ m1,
                                  ''Framework-specific build failed: '' @ m2]\<rparr>)"
  using assms
  by (simp add: build_with_fallbacks_def strategy1_fail strategy2_fail)

lemma build_all_fail_vite:
  assumes "outcomes s = Some m1 # Some m2 # Some m3 # Some m4 # rest"
  shows "fst (build_with_fallbacks ''vite'' s) =
           Inl (case restore_error s of
                  Some m' \<Rightarrow> Exception m'
                | None \<Rightarrow> Exception ''All build strategies failed'')"
    and "\<exists>x. warnings (snd (build_with_fallbacks ''vite'' s)) =
         warnings s @ [''Standard build failed: '' @ m1,
                       ''Framework-specific build failed: '' @ m2,
                       ''Forced build failed: '' @ m3,
                       ''Build without config failed: '' @ x]"
proof -
  let ?s3 = "s\<lparr>outcomes := Some m4 # rest,
        commands := commands s @ [[''npm'', ''run'', ''build''], framework_command ''vite'',
                                  [''npx'', ''vite'', ''build'', ''--base'', ''./'']],
        warnings := warnings s @ [''Standard build failed: '' @ m1,
                                  ''Framework-specific build failed: '' @ m2,
                                  ''Forced build failed: '' @ m3]\<rparr>"
  have o3: "outcomes ?s3 = Some m4 # rest" by simp
  have re: "restore_error ?s3 = restore_error s"
    by (rule restore_error_cong) simp_all
  obtain r4 s4 where r4: "strategy4 ?s3 = (r4, s4)"
    by (cases "strategy4 ?s3")
  have a: "r4 = (case restore_error s of Some m' \<Rightarrow> Inl (Exception m') | None \<Rightarrow> Inr False)"
    using strategy4_fail(1) [OF o3] r4 re by simp
  obtain x where w: "warnings s4 = warnings ?s3 @ [''Build without config failed: '' @ x]"
    using strategy4_fail(2) [OF o3] r4 by auto
  have bw: "build_with_fallbacks ''vite'' s =
      (case (r4, s4) of
         (Inl e, s4) \<Rightarrow> (Inl e, s4)
       | (Inr b4, s4) \<Rightarrow>
           if \<not> b4 then (Inl (Exception ''All build strategies failed''), s4)
           else (Inr (), s4))"
    using assms r4
    by (simp add: build_with_fallbacks_def strategy1_fail strategy2_fail strategy3_fail)
  show "fst (build_with_fallbacks ''vite'' s) =
           Inl (case restore_error s of
                  Some m' \<Rightarrow> Exception m'
                | None \<Rightarrow> Exception ''All build strategies failed'')"
    unfolding bw a by (cases "restore_error s") simp_all
  have "warnings (snd (build_with_fallbacks ''vite'' s)) = warnings s4"
    unfolding bw a by (cases "restore_error s") simp_all
  then show "\<exists>x. warnings (snd (build_with_fallbacks ''vite'' s)) =
         warnings s @ [''Standard build failed: '' @ m1,
                       ''Framework-specific build failed: '' @ m2,
                       ''Forced build failed: '' @ m3,
                       ''Build without config failed: '' @ x]"
    using w by simp
qed

lemma build_raises:
  assumes "fst (build_with_fallbacks fw s) = Inl e"
  shows "e = Exception ''All build strategies failed''
     \<or> (fw = ''vite'' \<and> (\<exists>m. restore_error s = Some m \<and> e = Exception m))"
proof -
  obtain b3 s3 where
    bw: "build_with_fallbacks fw s =
       (case (if \<not> b3 \<and> fw = ''vite'' then strategy4 s3 else (Inr b3, s3)) of
          (Inl e, s4) \<Rightarrow> (Inl e, s4)
        | (Inr b4, s4) \<Rightarrow>
            if \<not> b4 then (Inl (Exception ''All build strategies failed''), s4)
            else (Inr (), s4))"
    and k: "files s3 = files s" "windows s3 = windows s"
    by (rule ladder_prefix)
  have re: "restore_error s3 = restore_error s"
    by (rule restore_error_cong [OF k])
  obtain r4 s4 where r4: "(if \<not> b3 \<and> fw = ''vite'' then strategy4 s3 else (Inr b3, s3)) = (r4, s4)"
    by (cases "if \<not> b3 \<and> fw = ''vite'' then strategy4 s3 else (Inr b3, s3)")
  show ?thesis
  proof (cases r4)
    case (Inl x)
    then have ex: "e = x"
      using assms unfolding bw r4 by simp
    have v: "\<not> b3 \<and> fw = ''vite''"
      using r4 Inl by (cases "\<not> b3 \<and> fw = ''vite''") auto
    then have "fst (strategy4 s3) = Inl x"
      using r4 Inl by simp
    then obtain m where "restore_error s3 = Some m" "x = Exception m"
      using strategy4_raise by blast
    then show ?thesis
      using v ex re by simp
  next
    case (Inr ok)
    then have "fst (build_with_fallbacks fw s) =
          (if \<not> ok then Inl (Exception ''All build strategies failed'') else Inr ())"
      unfolding bw r4 by simp
    then show ?thesis using assms by (cases ok) simp_all
  qed
qed

text \<open>
  C9. Whenever \<open>vite.config.js\<close> is a file before the config-bypassed strategy runs, the
  same file is at that path again afterwards: on the success path and on the failure
  path of the strategy, on either platform, and also when an entry in the place of the
  backup keeps the file from being moved at all and the strategy leaves with the error
  of a rename. The same holds across the whole ladder, for every framework and every
  outcome of the commands. When there was no backup entry before, none is left and the
  strategy does not raise.
\<close>

theorem config_restored_after_strategy4:
  assumes "files s ''vite.config.js'' = Some (File c)"
  shows "files (snd (strategy4 s)) ''vite.config.js'' = Some (File c)
     \<and> files (snd (build_with_fallbacks framework s)) ''vite.config.js'' = Some (File c)
     \<and> (files s ''vite.config.js.backup'' = None \<longrightarrow>
          files (snd (strategy4 s)) ''vite.config.js.backup'' = None
          \<and> (\<exists>ok. fst (strategy4 s) = Inr ok))"
proof (intro conjI impI)
  show "files (snd (strategy4 s)) ''vite.config.js'' = Some (File c)"
    by (rule strategy4_restores [OF assms])
  show "files (snd (build_with_fallbacks framework s)) ''vite.config.js'' = Some (File c)"
    by (rule build_with_fallbacks_restores [OF assms])
next
  assume n: "files s ''vite.config.js.backup'' = None"
  show "files (snd (strategy4 s)) ''vite.config.js.backup'' = None"
    by (rule strategy4_removes_backup(1) [OF assms n])
  show "\<exists>ok. fst (strategy4 s) = Inr ok"
    by (rule strategy4_removes_backup(2) [OF assms n])
qed

lemma example_strategy4:
  "fst (strategy4 (example_env [None])) = Inr True"
  "fst (strategy4 (example_env [Some ''exit status 1''])) = Inr False"
  "fst (strategy4 (example_env_stale [Some ''exit status 1''])) = Inl (Exception ''FileExistsError'')"
  "fst (strategy4 (example_env_dir [None])) = Inl (Exception ''NotADirectoryError'')"
  by (simp_all add: example_env_def example_env_stale_def example_env_dir_def strategy4_def
      strategy4_body_def strategy4_handler_def exists_def rename_def rename_error_def
      run_command_def print_warning_def)

theorem config_restored_after_strategy4_witness:
  "files (example_env [None]) ''vite.config.js'' = Some (File ''export default {}'')
   \<and> files (example_env [None]) ''vite.config.js.backup'' = None
   \<and> fst (strategy4 (example_env [None])) = Inr True
   \<and> files (snd (strategy4 (example_env [None]))) ''vite.config.js''
       = Some (File ''export default {}'')
   \<and> files (snd (strategy4 (example_env [None]))) ''vite.config.js.backup'' = None
   \<and> fst (strategy4 (example_env [Some ''exit status 1''])) = Inr False
   \<and> files (snd (strategy4 (example_env [Some ''exit status 1'']))) ''vite.config.js''
       = Some (File ''export default {}'')
   \<and> files (example_env_stale [Some ''exit status 1'']) ''vite.config.js''
       = Some (File ''export default {}'')
   \<and> fst (strategy4 (example_env_stale [Some ''exit status 1'']))
       = Inl (Exception ''FileExistsError'')
   \<and> files (snd (strategy4 (example_env_stale [Some ''exit status 1'']))) ''vite.config.js''
       = Some (File ''export default {}'')
   \<and> files (example_env_dir [None]) ''vite.config.js'' = Some (File ''export default {}'')
   \<and> fst (strategy4 (example_env_dir [None])) = Inl (Exception ''NotADirectoryError'')
   \<and> files (snd (strategy4 (example_env_dir [None]))) ''vite.config.js''
       = Some (File ''export default {}'')
   \<and> files (snd (build_with_fallbacks ''vite''
         (example_env [Some ''a'', Some ''b'', Some ''c'', Some ''d'']))) ''vite.config.js''
       = Some (File ''export default {}'')"
proof -
  have f: "\<And>os. files (example_env os) ''vite.config.js'' = Some (File ''export default {}'')"
    by (simp add: example_env_def)
  have n: "\<And>os. files (example_env os) ''vite.config.js.backup'' = None"
    by (simp add: example_env_def)
  have g: "\<And>os. files (example_env_stale os) ''vite.config.js'' = Some (File ''export default {}'')"
    by (simp add: example_env_stale_def)
  have h: "\<And>os. files (example_env_dir os) ''vite.config.js'' = Some (File ''export default {}'')"
    by (simp add: example_env_dir_def)
  note T1 = config_restored_after_strategy4 [OF f [of "[None]"], of "''vite''"]
  note T2 = config_restored_after_strategy4 [OF f [of "[Some ''exit status 1'']"], of "''vite''"]
  note T3 = config_restored_after_strategy4 [OF g [of "[Some ''exit status 1'']"], of "''vite''"]
  note T4 = config_restored_after_strategy4 [OF h [of "[None]"], of "''vite''"]
  note T5 = config_restored_after_strategy4
    [OF f [of "[Some ''a'', Some ''b'', Some ''c'', Some ''d'']"], of "''vite''"]
  show ?thesis
    by (intro conjI f n g h example_strategy4
        conjunct1 [OF T1] conjunct1 [OF T2] conjunct1 [OF T3] conjunct1 [OF T4]
        conjunct1 [OF conjunct2 [OF T5]]
        conjunct1 [OF mp [OF conjunct2 [OF conjunct2 [OF T1]] n]])
qed

text \<open>
  C5, as stated, fails: two runs in which every strategy fails, with different failures,
  raise the same exception, whose only content is a fixed message; the failures went to
  the warnings.
\<close>

theorem build_failure_list_counterexample:
  "fst (build_with_fallbacks ''react'' (example_env [Some ''exit status 1'', Some ''exit status 2'']))
     = Inl (Exception ''All build strategies failed'')
   \<and> fst (build_with_fallbacks ''react'' (example_env [Some ''timed out'', Some ''not found'']))
     = Inl (Exception ''All build strategies failed'')
   \<and> warnings (snd (build_with_fallbacks ''react''
        (example_env [Some ''exit status 1'', Some ''exit status 2''])))
     = [''Standard build failed: exit status 1'', ''Framework-specific build failed: exit status 2'']
   \<and> warnings (snd (build_with_fallbacks ''react''
        (example_env [Some ''timed out'', Some ''not found''])))
     = [''Standard build failed: timed out'', ''Framework-specific build failed: not found'']"
proof -
  have r: "''react'' \<noteq> ''vite''" by simp
  show ?thesis
    using build_all_fail_other [OF r, of "example_env [Some ''exit status 1'', Some ''exit status 2'']"
        "''exit status 1''" "''exit status 2''" "[]"]
      build_all_fail_other [OF r, of "example_env [Some ''timed out'', Some ''not found'']"
        "''timed out''" "''not found''" "[]"]
    by (simp add: example_env_def)
qed

text \<open>
  C5, amended. When every strategy of the ladder fails (two strategies, four for vite),
  the error raised has no list of failures attached. It is \<open>Exception('All build
  strategies failed')\<close>, a fixed message; for vite, when the configuration file could
  not be moved aside because an entry stands in the place of the backup and the
  restoring rename in the \<^verbatim>\<open>except\<close> block of strategy 4 raises, it is the error of that
  rename instead. Each failure is printed as a warning, one per attempted strategy, in
  the order of the ladder. Whenever the function raises at all, it raises one of these
  two errors.
\<close>

theorem build_all_fail_fixed_message:
  "(framework \<noteq> ''vite'' \<longrightarrow> outcomes s = Some m1 # Some m2 # rest \<longrightarrow>
      fst (build_with_fallbacks framework s) = Inl (Exception ''All build strategies failed'')
      \<and> warnings (snd (build_with_fallbacks framework s)) =
          warnings s @ [''Standard build failed: '' @ m1,
                        ''Framework-specific build failed: '' @ m2])
   \<and> (outcomes s = Some m1 # Some m2 # Some m3 # Some m4 # rest \<longrightarrow>
      fst (build_with_fallbacks ''vite'' s) =
        Inl (case restore_error s of
               Some m' \<Rightarrow> Exception m'
             | None \<Rightarrow> Exception ''All build strategies failed'')
      \<and> (\<exists>x. warnings (snd (build_with_fallbacks ''vite'' s)) =
          warnings s @ [''Standard build failed: '' @ m1,
                        ''Framework-specific build failed: '' @ m2,
                        ''Forced build failed: '' @ m3,
                        ''Build without config failed: '' @ x]))
   \<and> (\<forall>e. fst (build_with_fallbacks framework s) = Inl e \<longrightarrow>
         e = Exception ''All build strategies failed''
         \<or> (framework = ''vite'' \<and> (\<exists>m. restore_error s = Some m \<and> e = Exception m)))
   \<and> (\<forall>m. restore_error s = Some m \<longrightarrow>
         m \<in> set [''FileNotFoundError'', ''FileExistsError'', ''IsADirectoryError'',
                   ''NotADirectoryError'', ''OSError''])
   \<and> (files s ''vite.config.js.backup'' = None \<longrightarrow> restore_error s = None)"
proof (intro conjI impI allI)
  assume "framework \<noteq> ''vite''" and "outcomes s = Some m1 # Some m2 # rest"
  then have b: "build_with_fallbacks framework s =
     (Inl (Exception ''All build strategies failed''),
      s\<lparr>outcomes := rest,
        commands := commands s @ [[''npm'', ''run'', ''build''], framework_command framework],
        warnings := warnings s @ [''Standard build failed: '' @ m1,
                                  ''Framework-specific build failed: '' @ m2]\<rparr>)"
    by (rule build_all_fail_other)
  show "fst (build_with_fallbacks framework s) = Inl (Exception ''All build strategies failed'')"
    by (simp add: b)
  show "warnings (snd (build_with_fallbacks framework s)) =
          warnings s @ [''Standard build failed: '' @ m1,
                        ''Framework-specific build failed: '' @ m2]"
    by (simp add: b)
next
  assume o: "outcomes s = Some m1 # Some m2 # Some m3 # Some m4 # rest"
  show "fst (build_with_fallbacks ''vite'' s) =
        Inl (case restore_error s of
               Some m' \<Rightarrow> Exception m'
             | None \<Rightarrow> Exception ''All build strategies failed'')"
    by (rule build_all_fail_vite(1) [OF o])
  show "\<exists>x. warnings (snd (build_with_fallbacks ''vite'' s)) =
          warnings s @ [''Standard build failed: '' @ m1,
                        ''Framework-specific build failed: '' @ m2,
                        ''Forced build failed: '' @ m3,
                        ''Build without config failed: '' @ x]"
    by (rule build_all_fail_vite(2) [OF o])
next
  fix e
  assume "fst (build_with_fallbacks framework s) = Inl e"
  then show "e = Exception ''All build strategies failed''
         \<or> (framework = ''vite'' \<and> (\<exists>m. restore_error s = Some m \<and> e = Exception m))"
    by (rule build_raises)
next
  fix m
  assume "restore_error s = Some m"
  then show "m \<in> set [''FileNotFoundError'', ''FileExistsError'', ''IsADirectoryError'',
                   ''NotADirectoryError'', ''OSError'']"
    by (rule restore_error_names)
next
  assume "files s ''vite.config.js.backup'' = None"
  then show "restore_error s = None"
    by (simp add: restore_error_def rename_error_def exists_def split: option.splits)
qed

theorem build_all_fail_fixed_message_witness:
  "''angular'' \<noteq> ''vite''
   \<and> outcomes (example_env [Some ''exit status 1'', Some ''timed out'']) =
       [Some ''exit status 1'', Some ''timed out'']
   \<and> fst (build_with_fallbacks ''angular'' (example_env [Some ''exit status 1'', Some ''timed out'']))
       = Inl (Exception ''All build strategies failed'')
   \<and> warnings (snd (build_with_fallbacks ''angular''
         (example_env [Some ''exit status 1'', Some ''timed out''])))
       = [''Standard build failed: exit status 1'', ''Framework-specific build failed: timed out'']
   \<and> outcomes (example_env [Some ''a'', Some ''b'', Some ''c'', Some ''d'']) =
       [Some ''a'', Some ''b'', Some ''c'', Some ''d'']
   \<and> files (example_env [Some ''a'', Some ''b'', Some ''c'', Some ''d'']) ''vite.config.js.backup''
       = None
   \<and> fst (build_with_fallbacks ''vite'' (example_env [Some ''a'', Some ''b'', Some ''c'', Some ''d'']))
       = Inl (Exception ''All build strategies failed'')
   \<and> outcomes (example_env_stale [Some ''a'', Some ''b'', Some ''c'', Some ''d'']) =
       [Some ''a'', Some ''b'', Some ''c'', Some ''d'']
   \<and> restore_error (example_env_stale [Some ''a'', Some ''b'', Some ''c'', Some ''d''])
       = Some ''FileExistsError''
   \<and> fst (build_with_fallbacks ''vite''
         (example_env_stale [Some ''a'', Some ''b'', Some ''c'', Some ''d'']))
       = Inl (Exception ''FileExistsError'')"
proof -
  let ?e2 = "example_env [Some ''exit status 1'', Some ''timed out'']"
  let ?e4 = "example_env [Some ''a'', Some ''b'', Some ''c'', Some ''d'']"
  let ?w4 = "example_env_stale [Some ''a'', Some ''b'', Some ''c'', Some ''d'']"
  have n: "''angular'' \<noteq> ''vite''" by simp
  have o2: "outcomes ?e2 = Some ''exit status 1'' # Some ''timed out'' # []"
    by (simp add: example_env_def)
  have o4: "outcomes ?e4 = Some ''a'' # Some ''b'' # Some ''c'' # Some ''d'' # []"
    by (simp add: example_env_def)
  have p4: "outcomes ?w4 = Some ''a'' # Some ''b'' # Some ''c'' # Some ''d'' # []"
    by (simp add: example_env_stale_def)
  have w: "warnings ?e2 = []"
    by (simp add: example_env_def)
  have nb: "files ?e4 ''vite.config.js.backup'' = None"
    by (simp add: example_env_def)
  have A: "fst (build_with_fallbacks ''angular'' ?e2) = Inl (Exception ''All build strategies failed'')
      \<and> warnings (snd (build_with_fallbacks ''angular'' ?e2)) =
          warnings ?e2 @ [''Standard build failed: '' @ ''exit status 1'',
                          ''Framework-specific build failed: '' @ ''timed out'']"
    by (rule mp [OF mp [OF conjunct1 [OF build_all_fail_fixed_message
            [where framework = "''angular''" and s = ?e2 and ?m1.0 = "''exit status 1''"
              and ?m2.0 = "''timed out''" and rest = "[]"]] n] o2])
  note T4 = build_all_fail_fixed_message
            [where s = ?e4 and ?m1.0 = "''a''" and ?m2.0 = "''b''" and ?m3.0 = "''c''"
              and ?m4.0 = "''d''" and rest = "[]"]
  note W4 = build_all_fail_fixed_message
            [where s = ?w4 and ?m1.0 = "''a''" and ?m2.0 = "''b''" and ?m3.0 = "''c''"
              and ?m4.0 = "''d''" and rest = "[]"]
  have r4: "restore_error ?e4 = None"
    by (rule mp [OF conjunct2 [OF conjunct2 [OF conjunct2 [OF conjunct2 [OF T4]]]] nb])
  have rw: "restore_error ?w4 = Some ''FileExistsError''"
    by (simp add: restore_error_def rename_error_def exists_def example_env_stale_def)
  have A1: "fst (build_with_fallbacks ''angular'' ?e2) = Inl (Exception ''All build strategies failed'')"
    using A by (rule conjunct1)
  have A2: "warnings (snd (build_with_fallbacks ''angular'' ?e2)) =
      [''Standard build failed: exit status 1'', ''Framework-specific build failed: timed out'']"
    using conjunct2 [OF A] w by simp
  have B1: "fst (build_with_fallbacks ''vite'' ?e4) = Inl (Exception ''All build strategies failed'')"
    using conjunct1 [OF mp [OF conjunct1 [OF conjunct2 [OF T4]] o4]] r4 by simp
  have C1: "fst (build_with_fallbacks ''vite'' ?w4) = Inl (Exception ''FileExistsError'')"
    using conjunct1 [OF mp [OF conjunct1 [OF conjunct2 [OF W4]] p4]] rw by simp
  have O2: "outcomes ?e2 = [Some ''exit status 1'', Some ''timed out'']"
    by (simp add: example_env_def)
  have O4: "outcomes ?e4 = [Some ''a'', Some ''b'', Some ''c'', Some ''d'']"
    by (simp add: example_env_def)
  have P4: "outcomes ?w4 = [Some ''a'', Some ''b'', Some ''c'', Some ''d'']"
    by (simp add: example_env_stale_def)
  show ?thesis
    by (intro conjI n O2 O4 P4 nb A1 A2 B1 C1 rw)
qed

subsection \<open>Cache control\<close>

text \<open>
  C8. The long-lived directive is given to the ten listed suffixes only. A file named
  \<open>photo.jpeg\<close>, an image for the content-type table of the same class, gets the default
  one-day directive, and so do \<open>.webp\<close>, \<open>.eot\<close> and \<open>.mjs\<close> files.
\<close>

theorem cache_control_jpeg_default:
  "get_cache_control ''photo.jpeg'' = ''public, max-age=86400''
   \<and> get_enhanced_content_type (\<lambda>n. None) ''photo.jpeg'' = ''image/jpeg''
   \<and> get_cache_control ''photo.jpg'' = ''public, max-age=31536000, immutable''
   \<and> get_cache_control ''hero.webp'' = ''public, max-age=86400''
   \<and> get_cache_control ''icons.eot'' = ''public, max-age=86400''
   \<and> get_cache_control ''chunk.mjs'' = ''public, max-age=86400''"
  by (simp add: get_cache_control_def get_enhanced_content_type_def content_types_def
      suffix_of_def rfind_dot_def lower_def lower_char_def)

subsection \<open>Release store: status\<close>

lemma request_fields [simp]:
  "objects (snd (request c r s)) = objects s"
  "bucket_name (snd (request c r s)) = bucket_name s"
  "region (snd (request c r s)) = region s"
  by (simp_all add: request_def split: list.splits option.splits)

lemma request_fault:
  "next_fault s = Some m \<Longrightarrow> fst (request c r s) = Inl (Exception m)"
  by (simp add: request_def next_fault_def split: list.splits option.splits)

lemma request_no_fault:
  "next_fault s = None \<Longrightarrow> fst (request c None s) = Inr ()"
  by (simp add: request_def next_fault_def split: list.splits option.splits)

lemma keys_with_prefix_request [simp]:
  "keys_with_prefix pfx (snd (request c r s)) = keys_with_prefix pfx s"
  by (simp add: keys_with_prefix_def)

lemma website_url_of_request [simp]:
  "website_url_of (snd (request c r s)) p = website_url_of s p"
  by (simp add: website_url_of_def)

lemma status_body_fault:
  assumes "next_fault s = Some m"
  shows "fst (get_project_status_body p s) = Inl (Exception m)"
proof -
  obtain r s' where rq: "request (ListObjectsV2 (p @ ''/current/'')) None s = (r, s')"
    by (cases "request (ListObjectsV2 (p @ ''/current/'')) None s")
  have "r = Inl (Exception m)"
    using request_fault [OF assms, of "ListObjectsV2 (p @ ''/current/'')" None] rq by simp
  then show ?thesis
    by (simp add: get_project_status_body_def list_objects_v2_max1_def rq)
qed

lemma status_body_ok:
  assumes "next_fault s = None"
  shows "fst (get_project_status_body p s) =
     Inr (ProjectStatus (keys_with_prefix (p @ ''/current/'') s \<noteq> [])
            (if keys_with_prefix (p @ ''/current/'') s \<noteq> [] then Some (website_url_of s p) else None)
            (bucket_name s) (region s))"
proof -
  let ?c = "ListObjectsV2 (p @ ''/current/'')"
  obtain r s' where rq: "request ?c None s = (r, s')"
    by (cases "request ?c None s")
  have r: "r = Inr ()"
    using request_no_fault [OF assms, of ?c] rq by simp
  have k: "keys_with_prefix (p @ ''/current/'') s' = keys_with_prefix (p @ ''/current/'') s"
    using keys_with_prefix_request [of "p @ ''/current/''" ?c None s] rq by simp
  have w: "website_url_of s' p = website_url_of s p" "bucket_name s' = bucket_name s"
    "region s' = region s"
    using website_url_of_request [of ?c None s p] request_fields(2,3) [of ?c None s] rq
    by simp_all
  have t: "\<And>xs::string list. (take (Suc 0) xs = []) = (xs = [])"
    by (case_tac xs) simp_all
  show ?thesis
    by (simp add: get_project_status_body_def list_objects_v2_max1_def rq r k w t Let_def)
qed

lemma keys_with_prefix_nonempty:
  "(keys_with_prefix pfx s \<noteq> []) = (\<exists>kv \<in> set (objects s). prefix pfx (fst kv))"
  by (auto simp: keys_with_prefix_def filter_empty_conv)

lemma get_project_status_fst:
  "fst (get_project_status p s) =
     (case fst (get_project_status_body p s) of
        Inl e \<Rightarrow> Inr (ProjectStatusError False (str e)) | Inr r \<Rightarrow> Inr r)"
  by (cases "get_project_status_body p s"; cases "fst (get_project_status_body p s)")
     (simp_all add: get_project_status_def)

text \<open>
  C10. \<^verbatim>\<open>get_project_status\<close> returns in every case. When the probe gets through, the
  status says deployed exactly when some object lies under the project's \<open>current/\<close>
  prefix, and carries the published URL only then; when the probe fails, the result is
  the error report, with deployed false and the description of the error.
\<close>

theorem get_project_status_never_raises:
  "(\<exists>r. fst (get_project_status p s) = Inr r)
   \<and> (next_fault s = None \<longrightarrow>
        fst (get_project_status p s) =
          Inr (ProjectStatus (\<exists>kv \<in> set (objects s). prefix (p @ ''/current/'') (fst kv))
                 (if \<exists>kv \<in> set (objects s). prefix (p @ ''/current/'') (fst kv)
                  then Some (website_url_of s p) else None)
                 (bucket_name s) (region s)))
   \<and> (\<forall>m. next_fault s = Some m \<longrightarrow>
        fst (get_project_status p s) = Inr (ProjectStatusError False m))"
proof (intro conjI impI allI)
  show "\<exists>r. fst (get_project_status p s) = Inr r"
    unfolding get_project_status_fst
    by (cases "fst (get_project_status_body p s)") simp_all
next
  assume "next_fault s = None"
  then show "fst (get_project_status p s) =
          Inr (ProjectStatus (\<exists>kv \<in> set (objects s). prefix (p @ ''/current/'') (fst kv))
                 (if \<exists>kv \<in> set (objects s). prefix (p @ ''/current/'') (fst kv)
                  then Some (website_url_of s p) else None)
                 (bucket_name s) (region s))"
    unfolding get_project_status_fst
    by (simp add: status_body_ok keys_with_prefix_nonempty)
next
  fix m
  assume "next_fault s = Some m"
  then show "fst (get_project_status p s) = Inr (ProjectStatusError False m)"
    unfolding get_project_status_fst
    by (simp add: status_body_fault)
qed

theorem get_project_status_never_raises_witness:
  "next_fault (example_store []) = None
   \<and> fst (get_project_status ''shop'' (example_store [])) =
       Inr (ProjectStatus True
         (Some ''http://minfy-uzaif-capstone-deployments.s3-website.ap-south-1.amazonaws.com/shop/current/'')
         ''minfy-uzaif-capstone-deployments'' ''ap-south-1'')
   \<and> fst (get_project_status ''blog'' (example_store [])) =
       Inr (ProjectStatus False None ''minfy-uzaif-capstone-deployments'' ''ap-south-1'')
   \<and> next_fault (example_store [Some ''AccessDenied'']) = Some ''AccessDenied''
   \<and> fst (get_project_status ''shop'' (example_store [Some ''AccessDenied''])) =
       Inr (ProjectStatusError False ''AccessDenied'')"
proof -
  have n: "next_fault (example_store []) = None"
    by (simp add: next_fault_def example_store_def)
  have f: "next_fault (example_store [Some ''AccessDenied'']) = Some ''AccessDenied''"
    by (simp add: next_fault_def example_store_def)
  note a = mp [OF conjunct1 [OF conjunct2 [OF get_project_status_never_raises
            [where s = "example_store []" and p = "''shop''"]]] n]
  note b = mp [OF conjunct1 [OF conjunct2 [OF get_project_status_never_raises
            [where s = "example_store []" and p = "''blog''"]]] n]
  note c = mp [OF spec [OF conjunct2 [OF conjunct2 [OF get_project_status_never_raises
            [where s = "example_store [Some ''AccessDenied'']" and p = "''shop''"]]]] f]
  have a': "fst (get_project_status ''shop'' (example_store [])) =
       Inr (ProjectStatus True
         (Some ''http://minfy-uzaif-capstone-deployments.s3-website.ap-south-1.amazonaws.com/shop/current/'')
         ''minfy-uzaif-capstone-deployments'' ''ap-south-1'')"
    using a by (simp add: example_store_def website_url_of_def)
  have b': "fst (get_project_status ''blog'' (example_store [])) =
       Inr (ProjectStatus False None ''minfy-uzaif-capstone-deployments'' ''ap-south-1'')"
    using b by (simp add: example_store_def)
  show ?thesis
    by (intro conjI n f a' b' c)
qed

subsection \<open>Release store: upload\<close>

lemma upload_file_cases:
  "(fst (upload_file k ob s) = Inr ()
      \<and> objects (snd (upload_file k ob s)) = AList.update k ob (objects s))
   \<or> ((\<exists>e. fst (upload_file k ob s) = Inl e)
      \<and> objects (snd (upload_file k ob s)) = objects s)"
proof -
  obtain r s' where rq: "request (UploadFile k) None s = (r, s')"
    by (cases "request (UploadFile k) None s")
  have o: "objects s' = objects s"
    using request_fields(1) [of "UploadFile k" None s] rq by simp
  show ?thesis
    using o by (cases r) (simp_all add: upload_file_def rq)
qed

lemma upload_file_other:
  "k' \<noteq> k \<Longrightarrow> map_of (objects (snd (upload_file k ob s))) k' = map_of (objects s) k'"
  using upload_file_cases [of k ob s] by (auto simp: update_conv')

lemma upload_file_wf:
  "wf_store s \<Longrightarrow> wf_store (snd (upload_file k ob s))"
  using upload_file_cases [of k ob s] by (auto simp: wf_store_def distinct_update)

lemma upload_files_other:
  "k \<notin> s3_key vp ` set fs \<Longrightarrow>
   map_of (objects (snd (upload_files g vp fs u t s))) k = map_of (objects s) k"
proof (induction fs arbitrary: u t s)
  case Nil
  then show ?case by simp
next
  case (Cons f fs)
  obtain r s' where uf: "upload_file (s3_key vp f) (stored_object g f) s = (r, s')"
    by (cases "upload_file (s3_key vp f) (stored_object g f) s")
  have k: "k \<noteq> s3_key vp f" and ks: "k \<notin> s3_key vp ` set fs"
    using Cons.prems by auto
  have o: "map_of (objects s') k = map_of (objects s) k"
    using upload_file_other [OF k, of "stored_object g f" s] uf by simp
  show ?case
  proof (cases r)
    case (Inl e)
    then show ?thesis using o by (simp add: uf)
  next
    case (Inr x)
    then show ?thesis using o Cons.IH [OF ks] by (simp add: uf)
  qed
qed

lemma upload_files_wf:
  "wf_store s \<Longrightarrow> wf_store (snd (upload_files g vp fs u t s))"
proof (induction fs arbitrary: u t s)
  case Nil
  then show ?case by simp
next
  case (Cons f fs)
  obtain r s' where uf: "upload_file (s3_key vp f) (stored_object g f) s = (r, s')"
    by (cases "upload_file (s3_key vp f) (stored_object g f) s")
  have w: "wf_store s'"
    using upload_file_wf [OF Cons.prems, of "s3_key vp f" "stored_object g f"] uf by simp
  show ?case
  proof (cases r)
    case (Inl e)
    then show ?thesis using w by (simp add: uf)
  next
    case (Inr x)
    then show ?thesis using Cons.IH [OF w] by (simp add: uf)
  qed
qed

lemma find_snoc:
  "find P (xs @ [x]) = (case find P xs of Some y \<Rightarrow> Some y | None \<Rightarrow> if P x then Some x else None)"
  by (induction xs) simp_all

lemma upload_files_success:
  "fst (upload_files g vp fs u t s) = Inr (u', t') \<Longrightarrow>
   u' = u + length fs \<and> t' = t + sum_list (map (\<lambda>f. length (data f)) fs)
   \<and> map_of (objects (snd (upload_files g vp fs u t s))) k =
       (case find (\<lambda>f. s3_key vp f = k) (rev fs) of
          Some f \<Rightarrow> Some (stored_object g f)
        | None \<Rightarrow> map_of (objects s) k)"
proof (induction fs arbitrary: u t s)
  case Nil
  then show ?case by simp
next
  case (Cons f fs)
  obtain r s' where uf: "upload_file (s3_key vp f) (stored_object g f) s = (r, s')"
    by (cases "upload_file (s3_key vp f) (stored_object g f) s")
  show ?case
  proof (cases r)
    case (Inl e)
    then show ?thesis using Cons.prems by (simp add: uf)
  next
    case (Inr x)
    then have rest: "fst (upload_files g vp fs (u + 1) (t + length (data f)) s') = Inr (u', t')"
      and eq: "upload_files g vp (f # fs) u t s = upload_files g vp fs (u + 1) (t + length (data f)) s'"
      using Cons.prems by (simp_all add: uf)
    have o: "objects s' = AList.update (s3_key vp f) (stored_object g f) (objects s)"
      using upload_file_cases [of "s3_key vp f" "stored_object g f" s] uf Inr by auto
    have m: "map_of (objects s') k =
        (if s3_key vp f = k then Some (stored_object g f) else map_of (objects s) k)"
      by (auto simp: o update_conv')
    show ?thesis
      unfolding eq
      using Cons.IH [OF rest] m
      by (simp add: find_snoc split: option.splits)
  qed
qed

lemma prefix_same_length:
  "prefix (a @ x) (b @ y) \<Longrightarrow> length a = length b \<Longrightarrow> a = b \<and> prefix x y"
  by (auto simp: prefix_def)

lemma replace_backslash_append:
  "replace_backslash (a @ b) = replace_backslash a @ replace_backslash b"
  by (simp add: replace_backslash_def)

lemma replace_backslash_id:
  "CHR 0x5C \<notin> set k \<Longrightarrow> replace_backslash k = k"
  by (induction k) (auto simp: replace_backslash_def)

lemma s3_key_prefix:
  "prefix (replace_backslash vp) (s3_key vp f)"
  by (simp add: s3_key_def replace_backslash_append)

lemma s3_key_not_current:
  "\<not> prefix (p @ ''/current/'') (s3_key (p @ ''/builds/'' @ v @ ''/'') f)"
proof
  assume a: "prefix (p @ ''/current/'') (s3_key (p @ ''/builds/'' @ v @ ''/'') f)"
  have k: "s3_key (p @ ''/builds/'' @ v @ ''/'') f =
      replace_backslash p @ (''/builds/'' @ replace_backslash (v @ ''/'' @ relative_path f))"
    by (simp add: s3_key_def replace_backslash_def)
  have l: "length p = length (replace_backslash p)"
    by (simp add: replace_backslash_def)
  have "prefix ''/current/'' (''/builds/'' @ replace_backslash (v @ ''/'' @ relative_path f))"
    using prefix_same_length [OF a [unfolded k] l] by simp
  then show False by simp
qed
lemma request_error_free:
  assumes "error_free s"
  shows "fst (request c None s) = Inr ()" and "error_free (snd (request c None s))"
proof -
  show "fst (request c None s) = Inr ()"
    using assms by (cases "faults s") (auto simp: request_def error_free_def)
  show "error_free (snd (request c None s))"
    using assms by (cases "faults s") (auto simp: request_def error_free_def)
qed

lemma upload_file_error_free:
  assumes "error_free s"
  shows "fst (upload_file k ob s) = Inr ()" and "error_free (snd (upload_file k ob s))"
proof -
  obtain r s' where rq: "request (UploadFile k) None s = (r, s')"
    by (cases "request (UploadFile k) None s")
  have r: "r = Inr ()" and e: "error_free s'"
    using request_error_free [OF assms, of "UploadFile k"] rq by simp_all
  show "fst (upload_file k ob s) = Inr ()"
    by (simp add: upload_file_def rq r)
  show "error_free (snd (upload_file k ob s))"
    using e by (simp add: upload_file_def rq r error_free_def)
qed

lemma upload_files_error_free:
  "error_free s \<Longrightarrow> \<exists>u' t'. fst (upload_files g vp fs u t s) = Inr (u', t')"
proof (induction fs arbitrary: u t s)
  case Nil
  then show ?case by simp
next
  case (Cons f fs)
  obtain r s' where uf: "upload_file (s3_key vp f) (stored_object g f) s = (r, s')"
    by (cases "upload_file (s3_key vp f) (stored_object g f) s")
  have r: "r = Inr ()" and e: "error_free s'"
    using upload_file_error_free [OF Cons.prems, of "s3_key vp f" "stored_object g f"] uf
    by simp_all
  show ?case
    using Cons.IH [OF e] by (simp add: uf r)
qed

lemma deploy_version_snd:
  "snd (deploy_version g p v fs s) =
     (if fs = [] then s else snd (upload_files g (p @ ''/builds/'' @ v @ ''/'') fs 0 0 s))"
proof (cases "fs = []")
  case True
  then show ?thesis
    by (simp add: deploy_version_def deploy_version_body_def)
next
  case False
  obtain r s' where u: "upload_files g (p @ ''/builds/'' @ v @ ''/'') fs 0 0 s = (r, s')"
    by (cases "upload_files g (p @ ''/builds/'' @ v @ ''/'') fs 0 0 s")
  show ?thesis
  proof (cases r)
    case (Inl e)
    then show ?thesis
      using False unfolding deploy_version_def deploy_version_body_def Let_def u by simp
  next
    case (Inr x)
    then show ?thesis
      using False unfolding deploy_version_def deploy_version_body_def Let_def u
      by (cases x) simp
  qed
qed

lemma deploy_version_Inr:
  assumes "fst (deploy_version g p v fs s) = Inr r"
  shows "fs \<noteq> [] \<and> (\<exists>t. fst (upload_files g (p @ ''/builds/'' @ v @ ''/'') fs 0 0 s)
            = Inr (uploaded_files r, t))"
proof (cases "fs = []")
  case True
  then show ?thesis
    using assms by (simp add: deploy_version_def deploy_version_body_def)
next
  case False
  obtain x s' where u: "upload_files g (p @ ''/builds/'' @ v @ ''/'') fs 0 0 s = (x, s')"
    by (cases "upload_files g (p @ ''/builds/'' @ v @ ''/'') fs 0 0 s")
  show ?thesis
  proof (cases x)
    case (Inl e)
    then show ?thesis
      using False assms unfolding deploy_version_def deploy_version_body_def Let_def u by simp
  next
    case (Inr y)
    then show ?thesis
      using False assms unfolding deploy_version_def deploy_version_body_def Let_def u
      by (cases y) auto
  qed
qed

lemma deploy_version_error_free:
  assumes "error_free s" and "fs \<noteq> []"
  shows "\<exists>r. fst (deploy_version g p v fs s) = Inr r"
proof -
  obtain x s' where u: "upload_files g (p @ ''/builds/'' @ v @ ''/'') fs 0 0 s = (x, s')"
    by (cases "upload_files g (p @ ''/builds/'' @ v @ ''/'') fs 0 0 s")
  obtain u' t' where "x = Inr (u', t')"
    using upload_files_error_free [OF assms(1), of g "p @ ''/builds/'' @ v @ ''/''" fs 0 0] u
    by auto
  then show ?thesis
    using assms(2) unfolding deploy_version_def deploy_version_body_def Let_def u by simp
qed

lemma deploy_version_other:
  assumes "k \<notin> s3_key (p @ ''/builds/'' @ v @ ''/'') ` set fs"
  shows "map_of (objects (snd (deploy_version g p v fs s))) k = map_of (objects s) k"
  unfolding deploy_version_snd
  using upload_files_other [OF assms] by simp

text \<open>
  What \<^verbatim>\<open>deploy_version\<close> does to the bucket, for every input. It changes no object
  outside the keys that start with \<open>{project}/builds/{version}/\<close> after the backslashes
  of that prefix are replaced by slashes, and none under \<open>{project}/current/\<close>, whether
  it succeeds or fails. When it succeeds it has stored each file's object at the
  normalised key of the file, the last file winning where two files have the same key,
  and it reports the number of files. It succeeds in every run free of errors on a
  non-empty directory.
\<close>

lemma deploy_version_frame:
  "(\<forall>k. \<not> prefix (replace_backslash (p @ ''/builds/'' @ v @ ''/'')) k \<longrightarrow>
        map_of (objects (snd (deploy_version g p v fs s))) k = map_of (objects s) k)
   \<and> (\<forall>k. prefix (p @ ''/current/'') k \<longrightarrow>
        map_of (objects (snd (deploy_version g p v fs s))) k = map_of (objects s) k)
   \<and> (\<forall>r. fst (deploy_version g p v fs s) = Inr r \<longrightarrow>
        uploaded_files r = length fs
        \<and> (\<forall>k. map_of (objects (snd (deploy_version g p v fs s))) k =
              (case find (\<lambda>f. s3_key (p @ ''/builds/'' @ v @ ''/'') f = k) (rev fs) of
                 Some f \<Rightarrow> Some (stored_object g f)
               | None \<Rightarrow> map_of (objects s) k)))
   \<and> (CHR 0x5C \<notin> set p \<and> CHR 0x5C \<notin> set v \<longrightarrow>
        replace_backslash (p @ ''/builds/'' @ v @ ''/'') = p @ ''/builds/'' @ v @ ''/'')
   \<and> (error_free s \<and> fs \<noteq> [] \<longrightarrow> (\<exists>r. fst (deploy_version g p v fs s) = Inr r))"
proof (intro conjI allI impI)
  fix k
  assume "\<not> prefix (replace_backslash (p @ ''/builds/'' @ v @ ''/'')) k"
  then have "k \<notin> s3_key (p @ ''/builds/'' @ v @ ''/'') ` set fs"
    using s3_key_prefix [of "p @ ''/builds/'' @ v @ ''/''"] by blast
  then show "map_of (objects (snd (deploy_version g p v fs s))) k = map_of (objects s) k"
    by (rule deploy_version_other)
next
  fix k
  assume "prefix (p @ ''/current/'') k"
  then have "k \<notin> s3_key (p @ ''/builds/'' @ v @ ''/'') ` set fs"
    using s3_key_not_current [of p v] by blast
  then show "map_of (objects (snd (deploy_version g p v fs s))) k = map_of (objects s) k"
    by (rule deploy_version_other)
next
  fix r
  assume a: "fst (deploy_version g p v fs s) = Inr r"
  then obtain t where ne: "fs \<noteq> []"
    and u: "fst (upload_files g (p @ ''/builds/'' @ v @ ''/'') fs 0 0 s) = Inr (uploaded_files r, t)"
    using deploy_version_Inr by blast
  show "uploaded_files r = length fs"
    using upload_files_success [OF u] by simp
  fix k
  show "map_of (objects (snd (deploy_version g p v fs s))) k =
              (case find (\<lambda>f. s3_key (p @ ''/builds/'' @ v @ ''/'') f = k) (rev fs) of
                 Some f \<Rightarrow> Some (stored_object g f)
               | None \<Rightarrow> map_of (objects s) k)"
    unfolding deploy_version_snd
    using upload_files_success [OF u, of k] ne by simp
next
  assume "CHR 0x5C \<notin> set p \<and> CHR 0x5C \<notin> set v"
  then have "CHR 0x5C \<notin> set (p @ ''/builds/'' @ v @ ''/'')"
    by simp
  then show "replace_backslash (p @ ''/builds/'' @ v @ ''/'') = p @ ''/builds/'' @ v @ ''/''"
    by (rule replace_backslash_id)
next
  assume "error_free s \<and> fs \<noteq> []"
  then show "\<exists>r. fst (deploy_version g p v fs s) = Inr r"
    using deploy_version_error_free by blast
qed
lemma deploy_version_frame_example:
  "error_free (example_store []) \<and> example_build \<noteq> []
   \<and> CHR 0x5C \<notin> set ''shop'' \<and> CHR 0x5C \<notin> set ''v4''
   \<and> replace_backslash (''shop'' @ ''/builds/'' @ ''v4'' @ ''/'') = ''shop/builds/v4/''
   \<and> fst (deploy_version (\<lambda>n. None) ''shop'' ''v4'' example_build (example_store [])) =
       Inr \<lparr>version = ''v4'',
            website_url = ''http://minfy-uzaif-capstone-deployments.s3-website.ap-south-1.amazonaws.com/shop/current/'',
            uploaded_files = 2, total_size = 14\<rparr>
   \<and> map_of (objects (snd (deploy_version (\<lambda>n. None) ''shop'' ''v4'' example_build
         (example_store [])))) ''shop/builds/v4/js/a.js''
       = Some \<lparr>body = ''four()'', content_type = ''application/javascript; charset=utf-8'',
               cache_control = ''public, max-age=31536000, immutable''\<rparr>
   \<and> prefix ''shop/current/'' ''shop/current/index.html''
   \<and> \<not> prefix ''shop/builds/v4/'' ''shop/current/index.html''
   \<and> map_of (objects (snd (deploy_version (\<lambda>n. None) ''shop'' ''v4'' example_build
         (example_store [])))) ''shop/current/index.html''
       = Some (html ''<p>2</p>'')"
proof -
  let ?g = "\<lambda>n::string. None::string option"
  let ?d = "deploy_version ?g ''shop'' ''v4'' example_build (example_store [])"
  note T = deploy_version_frame [where g = ?g and p = "''shop''" and v = "''v4''"
      and fs = example_build and s = "example_store []"]
  have e: "error_free (example_store [])"
    by (simp add: error_free_def example_store_def)
  have n: "example_build \<noteq> []"
    by (simp add: example_build_def)
  have b: "CHR 0x5C \<notin> set ''shop''" "CHR 0x5C \<notin> set ''v4''"
    by simp_all
  have r: "replace_backslash (''shop'' @ ''/builds/'' @ ''v4'' @ ''/'') = ''shop/builds/v4/''"
    using mp [OF conjunct1 [OF conjunct2 [OF conjunct2 [OF conjunct2 [OF T]]]] conjI [OF b]]
    by simp
  have f: "fst ?d =
       Inr \<lparr>version = ''v4'',
            website_url = ''http://minfy-uzaif-capstone-deployments.s3-website.ap-south-1.amazonaws.com/shop/current/'',
            uploaded_files = 2, total_size = 14\<rparr>"
    by (simp add: deploy_version_def deploy_version_body_def upload_file_def request_def
        example_store_def example_build_def website_url_of_def Let_def s3_key_def
        replace_backslash_def)
  have pc: "prefix ''shop/current/'' ''shop/current/index.html''"
    by simp
  have np: "\<not> prefix ''shop/builds/v4/'' ''shop/current/index.html''"
    by simp
  have c: "map_of (objects (snd ?d)) ''shop/current/index.html'' = Some (html ''<p>2</p>'')"
    using mp [OF spec [OF conjunct1 [OF conjunct2 [OF T]]], of "''shop/current/index.html''"] pc
    by (simp add: example_store_def)
  have a: "map_of (objects (snd ?d)) ''shop/builds/v4/js/a.js''
       = Some \<lparr>body = ''four()'', content_type = ''application/javascript; charset=utf-8'',
               cache_control = ''public, max-age=31536000, immutable''\<rparr>"
    using conjunct2 [OF mp [OF spec [OF conjunct1 [OF conjunct2 [OF conjunct2 [OF T]]]] f]]
    by (simp add: example_build_def s3_key_def replace_backslash_def stored_object_def
        get_enhanced_content_type_def content_types_def get_cache_control_def
        suffix_of_def rfind_dot_def lower_def lower_char_def)
  show ?thesis
    by (intro conjI e n b r f a pc np c)
qed

subsection \<open>Release store: clearing a prefix\<close>

lemma concat_chunks: "0 < n \<Longrightarrow> concat (chunks n xs) = xs"
proof (induction n xs rule: chunks.induct)
  case (1 n xs)
  show ?case
  proof (cases "xs = []")
    case True
    then show ?thesis by (simp add: chunks.simps)
  next
    case False
    then have "chunks n xs = take n xs # chunks n (drop n xs)"
      using "1.prems" by (subst chunks.simps) simp
    then show ?thesis
      using "1.IH" "1.prems" False by simp
  qed
qed

lemma concat_pages_of: "concat (pages_of xs) = xs"
  by (simp add: pages_of_def concat_chunks)

lemma map_of_filter_key:
  "map_of (filter (\<lambda>kv. P (fst kv)) xs) k = (if P k then map_of xs k else None)"
  by (induction xs) auto

lemma request_Inr_None: "\<exists>x. fst (request c None s) = Inl x \<or> fst (request c None s) = Inr ()"
  by (cases "fst (request c None s)") simp_all

lemma collect_pages_objects:
  "objects (snd (collect_pages pfx pgs s)) = objects s"
proof (induction pgs arbitrary: s)
  case Nil
  then show ?case by simp
next
  case (Cons pg pgs)
  obtain r s' where rq: "request (ListObjectsV2 pfx) None s = (r, s')"
    by (cases "request (ListObjectsV2 pfx) None s")
  have o: "objects s' = objects s"
    using request_fields(1) [of "ListObjectsV2 pfx" None s] rq by simp
  show ?case
  proof (cases r)
    case (Inl e)
    then show ?thesis using o by (simp add: rq)
  next
    case (Inr u)
    obtain r2 s2 where c: "collect_pages pfx pgs s' = (r2, s2)"
      by (cases "collect_pages pfx pgs s'")
    have "objects s2 = objects s'"
      using Cons.IH [of s'] c by simp
    then show ?thesis
      using o Inr by (cases r2) (simp_all add: rq c)
  qed
qed

lemma collect_pages_error_free:
  "error_free s \<Longrightarrow>
   fst (collect_pages pfx pgs s) = Inr (concat pgs) \<and> error_free (snd (collect_pages pfx pgs s))"
proof (induction pgs arbitrary: s)
  case Nil
  then show ?case by simp
next
  case (Cons pg pgs)
  obtain r s' where rq: "request (ListObjectsV2 pfx) None s = (r, s')"
    by (cases "request (ListObjectsV2 pfx) None s")
  have r: "r = Inr ()" and e: "error_free s'"
    using request_error_free [OF Cons.prems, of "ListObjectsV2 pfx"] rq by simp_all
  obtain r2 s2 where c: "collect_pages pfx pgs s' = (r2, s2)"
    by (cases "collect_pages pfx pgs s'")
  have "r2 = Inr (concat pgs)" and "error_free s2"
    using Cons.IH [OF e] c by simp_all
  then show ?case
    by (simp add: rq r c)
qed

lemma delete_objects_error_free:
  assumes "error_free s"
  shows "fst (delete_objects batch s) = Inr ()"
    and "error_free (snd (delete_objects batch s))"
    and "objects (snd (delete_objects batch s)) = filter (\<lambda>kv. fst kv \<notin> set batch) (objects s)"
proof -
  obtain r s' where rq: "request (DeleteObjects batch) None s = (r, s')"
    by (cases "request (DeleteObjects batch) None s")
  have r: "r = Inr ()" and e: "error_free s'"
    using request_error_free [OF assms, of "DeleteObjects batch"] rq by simp_all
  have o: "objects s' = objects s"
    using request_fields(1) [of "DeleteObjects batch" None s] rq by simp
  show "fst (delete_objects batch s) = Inr ()"
    by (simp add: delete_objects_def rq r)
  show "error_free (snd (delete_objects batch s))"
    using e by (simp add: delete_objects_def rq r error_free_def)
  show "objects (snd (delete_objects batch s)) = filter (\<lambda>kv. fst kv \<notin> set batch) (objects s)"
    by (simp add: delete_objects_def rq r o)
qed

lemma delete_batches_error_free:
  "error_free s \<Longrightarrow>
   fst (delete_batches bs s) = Inr ()
   \<and> error_free (snd (delete_batches bs s))
   \<and> objects (snd (delete_batches bs s)) = filter (\<lambda>kv. fst kv \<notin> set (concat bs)) (objects s)"
proof (induction bs arbitrary: s)
  case Nil
  then show ?case by simp
next
  case (Cons b bs)
  obtain r s' where d: "delete_objects b s = (r, s')"
    by (cases "delete_objects b s")
  have r: "r = Inr ()" and e: "error_free s'"
    and o: "objects s' = filter (\<lambda>kv. fst kv \<notin> set b) (objects s)"
    using delete_objects_error_free [OF Cons.prems, of b] d by simp_all
  show ?case
    using Cons.IH [OF e] by (auto simp: d r o intro: filter_cong)
qed

lemma clear_prefix_error_free:
  assumes "error_free s"
  shows "objects (clear_prefix pfx s) = filter (\<lambda>kv. \<not> prefix pfx (fst kv)) (objects s)"
    and "error_free (clear_prefix pfx s)"
proof -
  let ?ks = "keys_with_prefix pfx s"
  obtain r s' where c: "collect_pages pfx (pages_of ?ks) s = (r, s')"
    by (cases "collect_pages pfx (pages_of ?ks) s")
  have r: "r = Inr ?ks" and e: "error_free s'"
    using collect_pages_error_free [OF assms, of pfx "pages_of ?ks"] c
    by (simp_all add: concat_pages_of)
  have o: "objects s' = objects s"
    using collect_pages_objects [of pfx "pages_of ?ks" s] c by simp
  have k: "set ?ks = {k \<in> fst ` set (objects s). prefix pfx k}"
    by (auto simp: keys_with_prefix_def)
  have f: "filter (\<lambda>kv. fst kv \<notin> set ?ks) (objects s)
      = filter (\<lambda>kv. \<not> prefix pfx (fst kv)) (objects s)"
    by (rule filter_cong) (auto simp: k)
  have both: "objects (clear_prefix pfx s) = filter (\<lambda>kv. \<not> prefix pfx (fst kv)) (objects s)
      \<and> error_free (clear_prefix pfx s)"
  proof (cases "?ks = []")
    case True
    then have "filter (\<lambda>kv. \<not> prefix pfx (fst kv)) (objects s) = objects s"
      using f by simp
    then show ?thesis
      using True e o unfolding clear_prefix_def clear_prefix_body_def c r by simp
  next
    case False
    have "objects (snd (delete_batches (chunks 1000 ?ks) s'))
        = filter (\<lambda>kv. fst kv \<notin> set ?ks) (objects s')"
      and "error_free (snd (delete_batches (chunks 1000 ?ks) s'))"
      using delete_batches_error_free [OF e, of "chunks 1000 ?ks"] by (simp_all add: concat_chunks)
    then show ?thesis
      using False o f unfolding clear_prefix_def clear_prefix_body_def c r by simp
  qed
  show "objects (clear_prefix pfx s) = filter (\<lambda>kv. \<not> prefix pfx (fst kv)) (objects s)"
    using both by simp
  show "error_free (clear_prefix pfx s)"
    using both by simp
qed

subsection \<open>Release store: copying a prefix\<close>

lemma copy_all_Nil [simp]: "copy_all sp dp [] obs = obs"
  by (simp add: copy_all_def)

lemma copy_all_Cons:
  "map_of obs k = Some ob \<Longrightarrow>
   copy_all sp dp (k # ks) obs = copy_all sp dp ks (AList.update (dp @ drop (length sp) k) ob obs)"
  by (simp add: copy_all_def)

lemma copy_all_append:
  "copy_all sp dp (xs @ ys) obs = copy_all sp dp ys (copy_all sp dp xs obs)"
  by (simp add: copy_all_def)

lemma copy_all_other:
  "k' \<notin> (\<lambda>k. dp @ drop (length sp) k) ` set ks \<Longrightarrow>
   map_of (copy_all sp dp ks obs) k' = map_of obs k'"
proof (induction ks arbitrary: obs)
  case Nil
  then show ?case by simp
next
  case (Cons k ks)
  have n: "k' \<noteq> dp @ drop (length sp) k"
    and r: "k' \<notin> (\<lambda>k. dp @ drop (length sp) k) ` set ks"
    using Cons.prems by auto
  show ?case
  proof (cases "map_of obs k")
    case None
    then have "copy_all sp dp (k # ks) obs = copy_all sp dp ks obs"
      by (simp add: copy_all_def)
    then show ?thesis using Cons.IH [OF r] by simp
  next
    case (Some ob)
    show ?thesis
      unfolding copy_all_Cons [OF Some]
      using Cons.IH [OF r] n by (simp add: update_conv')
  qed
qed

lemma copy_all_present:
  "map_of obs k \<noteq> None \<Longrightarrow> map_of (copy_all sp dp ks obs) k \<noteq> None"
proof (induction ks arbitrary: obs)
  case Nil
  then show ?case by simp
next
  case (Cons x ks)
  show ?case
  proof (cases "map_of obs x")
    case None
    then have "copy_all sp dp (x # ks) obs = copy_all sp dp ks obs"
      by (simp add: copy_all_def)
    then show ?thesis using Cons.IH [OF Cons.prems] by simp
  next
    case (Some ob)
    have "map_of (AList.update (dp @ drop (length sp) x) ob obs) k \<noteq> None"
      using Cons.prems by (simp add: update_conv')
    then show ?thesis
      unfolding copy_all_Cons [OF Some] by (rule Cons.IH)
  qed
qed

lemma copy_all_wf:
  "distinct (map fst obs) \<Longrightarrow> distinct (map fst (copy_all sp dp ks obs))"
proof (induction ks arbitrary: obs)
  case Nil
  then show ?case by simp
next
  case (Cons x ks)
  show ?case
  proof (cases "map_of obs x")
    case None
    then have "copy_all sp dp (x # ks) obs = copy_all sp dp ks obs"
      by (simp add: copy_all_def)
    then show ?thesis using Cons.IH [OF Cons.prems] by simp
  next
    case (Some ob)
    show ?thesis
      unfolding copy_all_Cons [OF Some]
      by (rule Cons.IH) (simp add: distinct_update Cons.prems)
  qed
qed

lemma copy_all_copied:
  assumes "\<forall>k \<in> set ks. map_of obs k \<noteq> None"
    and "\<forall>k \<in> set ks. \<forall>k' \<in> set ks. dp @ drop (length sp) k' \<noteq> k"
    and "inj_on (\<lambda>k. dp @ drop (length sp) k) (set ks)"
    and "x \<in> set ks"
  shows "map_of (copy_all sp dp ks obs) (dp @ drop (length sp) x) = map_of obs x"
  using assms
proof (induction ks arbitrary: obs)
  case Nil
  then show ?case by simp
next
  case (Cons k ks)
  let ?d = "\<lambda>k. dp @ drop (length sp) k"
  obtain ob where ob: "map_of obs k = Some ob"
    using Cons.prems(1) by auto
  let ?obs1 = "AList.update (?d k) ob obs"
  have eq: "copy_all sp dp (k # ks) obs = copy_all sp dp ks ?obs1"
    by (rule copy_all_Cons [OF ob])
  have src: "\<And>y. y \<in> set (k # ks) \<Longrightarrow> y \<noteq> ?d k"
    using Cons.prems(2) by auto
  have keep: "\<And>y. y \<in> set (k # ks) \<Longrightarrow> map_of ?obs1 y = map_of obs y"
    using src by (simp add: update_conv')
  show ?case
  proof (cases "x \<in> set ks")
    case True
    have p1: "\<forall>k \<in> set ks. map_of ?obs1 k \<noteq> None"
      using Cons.prems(1) keep by simp
    have p2: "\<forall>k \<in> set ks. \<forall>k' \<in> set ks. ?d k' \<noteq> k"
      using Cons.prems(2) by simp
    have p3: "inj_on ?d (set ks)"
      using Cons.prems(3) by (simp add: inj_on_def)
    have "map_of (copy_all sp dp ks ?obs1) (?d x) = map_of ?obs1 x"
      by (rule Cons.IH [OF p1 p2 p3 True])
    then show ?thesis
      unfolding eq using keep [of x] True by simp
  next
    case False
    then have xk: "x = k" using Cons.prems(4) by simp
    have "?d k \<notin> ?d ` set ks"
    proof
      assume "?d k \<in> ?d ` set ks"
      then obtain y where y: "y \<in> set ks" "?d y = ?d k" by auto
      then have "y = k"
        using Cons.prems(3) by (auto simp: inj_on_def)
      then show False using y(1) False xk by simp
    qed
    then have "map_of (copy_all sp dp ks ?obs1) (?d k) = map_of ?obs1 (?d k)"
      by (rule copy_all_other)
    then show ?thesis
      unfolding eq xk using ob by (simp add: update_conv')
  qed
qed

lemma copy_object_error_free:
  assumes "error_free s" and "map_of (objects s) k = Some ob"
  shows "fst (copy_object k d s) = Inr ()"
    and "error_free (snd (copy_object k d s))"
    and "objects (snd (copy_object k d s)) = AList.update d ob (objects s)"
proof -
  obtain r s' where rq: "request (CopyObject k d) None s = (r, s')"
    by (cases "request (CopyObject k d) None s")
  have r: "r = Inr ()" and e: "error_free s'"
    using request_error_free [OF assms(1), of "CopyObject k d"] rq by simp_all
  have o: "objects s' = objects s"
    using request_fields(1) [of "CopyObject k d" None s] rq by simp
  show "fst (copy_object k d s) = Inr ()"
    by (simp add: copy_object_def assms(2) rq r)
  show "error_free (snd (copy_object k d s))"
    using e by (simp add: copy_object_def assms(2) rq r error_free_def)
  show "objects (snd (copy_object k d s)) = AList.update d ob (objects s)"
    by (simp add: copy_object_def assms(2) rq r o)
qed

lemma copy_object_fields:
  "bucket_name (snd (copy_object k d s)) = bucket_name s"
  "region (snd (copy_object k d s)) = region s"
proof -
  obtain r s' where rq: "request (CopyObject k d) (Some ''NoSuchKey'') s = (r, s')"
    by (cases "request (CopyObject k d) (Some ''NoSuchKey'') s")
  obtain r2 s2 where rq2: "request (CopyObject k d) None s = (r2, s2)"
    by (cases "request (CopyObject k d) None s")
  have f: "bucket_name s' = bucket_name s" "region s' = region s"
    "bucket_name s2 = bucket_name s" "region s2 = region s"
    using request_fields(2,3) [of "CopyObject k d" "Some ''NoSuchKey''" s]
      request_fields(2,3) [of "CopyObject k d" None s] rq rq2 by simp_all
  show "bucket_name (snd (copy_object k d s)) = bucket_name s"
    using f by (cases "map_of (objects s) k"; cases r; cases r2)
      (simp_all add: copy_object_def rq rq2)
  show "region (snd (copy_object k d s)) = region s"
    using f by (cases "map_of (objects s) k"; cases r; cases r2)
      (simp_all add: copy_object_def rq rq2)
qed

lemma copy_keys_fields:
  "bucket_name (snd (copy_keys sp dp ks n s)) = bucket_name s
   \<and> region (snd (copy_keys sp dp ks n s)) = region s"
proof (induction ks arbitrary: n s)
  case Nil
  then show ?case by simp
next
  case (Cons k ks)
  obtain r s' where c: "copy_object k (dp @ drop (length sp) k) s = (r, s')"
    by (cases "copy_object k (dp @ drop (length sp) k) s")
  have f: "bucket_name s' = bucket_name s" "region s' = region s"
    using copy_object_fields [of k "dp @ drop (length sp) k" s] c by simp_all
  show ?case
    using f Cons.IH [of "n + 1" s'] by (cases r) (simp_all add: c)
qed

lemma copy_keys_error_free:
  "error_free s \<Longrightarrow> \<forall>k \<in> set ks. map_of (objects s) k \<noteq> None \<Longrightarrow>
   fst (copy_keys sp dp ks n s) = Inr (n + length ks)
   \<and> error_free (snd (copy_keys sp dp ks n s))
   \<and> objects (snd (copy_keys sp dp ks n s)) = copy_all sp dp ks (objects s)"
proof (induction ks arbitrary: n s)
  case Nil
  then show ?case by simp
next
  case (Cons k ks)
  let ?d = "dp @ drop (length sp) k"
  obtain ob where ob: "map_of (objects s) k = Some ob"
    using Cons.prems(2) by auto
  obtain r s' where c: "copy_object k ?d s = (r, s')"
    by (cases "copy_object k ?d s")
  have r: "r = Inr ()" and e: "error_free s'"
    and o: "objects s' = AList.update ?d ob (objects s)"
    using copy_object_error_free [OF Cons.prems(1) ob, of ?d] c by simp_all
  have p: "\<forall>k \<in> set ks. map_of (objects s') k \<noteq> None"
    using Cons.prems(2) by (simp add: o update_conv')
  have "copy_keys sp dp (k # ks) n s = copy_keys sp dp ks (n + 1) s'"
    by (simp add: c r)
  then show ?case
    using Cons.IH [OF e p, of "n + 1"] by (simp add: copy_all_Cons [OF ob] o)
qed

lemma copy_pages_error_free:
  "error_free s \<Longrightarrow> \<forall>k \<in> set (concat pgs). map_of (objects s) k \<noteq> None \<Longrightarrow>
   fst (copy_pages sp dp pgs n s) = Inr (n + length (concat pgs))
   \<and> error_free (snd (copy_pages sp dp pgs n s))
   \<and> objects (snd (copy_pages sp dp pgs n s)) = copy_all sp dp (concat pgs) (objects s)
   \<and> bucket_name (snd (copy_pages sp dp pgs n s)) = bucket_name s
   \<and> region (snd (copy_pages sp dp pgs n s)) = region s"
proof (induction pgs arbitrary: n s)
  case Nil
  then show ?case by simp
next
  case (Cons pg pgs)
  obtain r s1 where rq: "request (ListObjectsV2 sp) None s = (r, s1)"
    by (cases "request (ListObjectsV2 sp) None s")
  have r: "r = Inr ()" and e1: "error_free s1"
    using request_error_free [OF Cons.prems(1), of "ListObjectsV2 sp"] rq by simp_all
  have o1: "objects s1 = objects s" "bucket_name s1 = bucket_name s" "region s1 = region s"
    using request_fields [of "ListObjectsV2 sp" None s] rq by simp_all
  obtain r2 s2 where ck: "copy_keys sp dp pg n s1 = (r2, s2)"
    by (cases "copy_keys sp dp pg n s1")
  have p1: "\<forall>k \<in> set pg. map_of (objects s1) k \<noteq> None"
    using Cons.prems(2) o1 by simp
  have r2: "r2 = Inr (n + length pg)" and e2: "error_free s2"
    and o2: "objects s2 = copy_all sp dp pg (objects s)"
    using copy_keys_error_free [OF e1 p1, of sp dp n] ck o1 by simp_all
  have p2: "\<forall>k \<in> set (concat pgs). map_of (objects s2) k \<noteq> None"
    using Cons.prems(2) by (simp add: o2 copy_all_present)
  have b2: "bucket_name s2 = bucket_name s \<and> region s2 = region s"
    using copy_keys_fields [of sp dp pg n s1] ck o1 by simp
  have "copy_pages sp dp (pg # pgs) n s = copy_pages sp dp pgs (n + length pg) s2"
    by (simp add: rq r ck r2)
  then show ?case
    using Cons.IH [OF e2 p2, of "n + length pg"] b2
    by (simp add: o2 copy_all_append)
qed

subsection \<open>Release store: activation\<close>

lemma builds_not_current:
  "prefix (p @ ''/builds/'' @ v @ ''/'') k \<Longrightarrow> \<not> prefix (p @ ''/current/'') k"
proof
  assume a: "prefix (p @ ''/builds/'' @ v @ ''/'') k" and b: "prefix (p @ ''/current/'') k"
  then have "prefix (p @ ''/builds/'' @ v @ ''/'') (p @ ''/current/'')
      \<or> prefix (p @ ''/current/'') (p @ ''/builds/'' @ v @ ''/'')"
    using prefix_same_cases by blast
  then show False by simp
qed

lemma keys_with_prefix_filter:
  assumes "\<And>k. prefix a k \<Longrightarrow> P k"
  shows "filter (prefix a) (map fst (filter (\<lambda>kv. P (fst kv)) xs)) = filter (prefix a) (map fst xs)"
  using assms by (induction xs) auto

lemma map_of_present: "(map_of xs k \<noteq> None) = (k \<in> fst ` set xs)"
  by (simp add: map_of_eq_None_iff)

lemma activate_version_error_free:
  fixes p v :: string
  assumes w: "wf_store s" and e: "error_free s"
  defines "src \<equiv> p @ ''/builds/'' @ v @ ''/''" and "cur \<equiv> p @ ''/current/''"
  shows "fst (activate_version p v s) =
           Inr \<lparr>version = v, website_url = website_url_of (snd (activate_version p v s)) p,
                copied_files = length (keys_with_prefix src s)\<rparr>"
    and "map_of (objects (snd (activate_version p v s))) (cur @ rel) = map_of (objects s) (src @ rel)"
    and "\<not> prefix cur k \<Longrightarrow> map_of (objects (snd (activate_version p v s))) k = map_of (objects s) k"
    and "wf_store (snd (activate_version p v s))"
    and "error_free (snd (activate_version p v s))"
proof -
  let ?s1 = "clear_prefix cur s"
  let ?ks = "keys_with_prefix src s"
  let ?d = "\<lambda>k. cur @ drop (length src) k"
  have nc: "\<And>k. prefix src k \<Longrightarrow> \<not> prefix cur k"
    unfolding src_def cur_def by (rule builds_not_current)
  have o1: "objects ?s1 = filter (\<lambda>kv. \<not> prefix cur (fst kv)) (objects s)"
    and e1: "error_free ?s1"
    using clear_prefix_error_free [OF e, of cur] by simp_all
  have ks1: "keys_with_prefix src ?s1 = ?ks"
    unfolding keys_with_prefix_def o1
    by (rule keys_with_prefix_filter) (rule nc)
  have src_ks: "\<And>k. k \<in> set ?ks \<Longrightarrow> prefix src k"
    by (simp add: keys_with_prefix_def)
  have m1: "\<And>k. map_of (objects ?s1) k = (if \<not> prefix cur k then map_of (objects s) k else None)"
    unfolding o1 by (rule map_of_filter_key)
  have in_ks: "\<And>k. prefix src k \<Longrightarrow> (k \<in> set ?ks) = (map_of (objects s) k \<noteq> None)"
    unfolding map_of_present by (simp add: keys_with_prefix_def)
  have present: "\<forall>k \<in> set (concat (pages_of ?ks)). map_of (objects ?s1) k \<noteq> None"
  proof
    fix k
    assume "k \<in> set (concat (pages_of ?ks))"
    then have k: "k \<in> set ?ks" by (simp add: concat_pages_of)
    then have "prefix src k" by (rule src_ks)
    then show "map_of (objects ?s1) k \<noteq> None"
      using in_ks [of k] nc [of k] k by (simp add: m1)
  qed
  obtain r s2 where cp: "copy_pages src cur (pages_of ?ks) 0 ?s1 = (r, s2)"
    by (cases "copy_pages src cur (pages_of ?ks) 0 ?s1")
  have r: "r = Inr (length ?ks)" and e2: "error_free s2"
    and o2: "objects s2 = copy_all src cur ?ks (objects ?s1)"
    using copy_pages_error_free [OF e1 present, of src cur 0] cp
    by (simp_all add: concat_pages_of)
  have av: "activate_version p v s =
      (Inr \<lparr>version = v, website_url = website_url_of s2 p, copied_files = length ?ks\<rparr>, s2)"
    unfolding activate_version_def Let_def copy_s3_prefix_def
    unfolding src_def [symmetric] cur_def [symmetric] ks1 cp r
    by simp
  show "fst (activate_version p v s) =
           Inr \<lparr>version = v, website_url = website_url_of (snd (activate_version p v s)) p,
                copied_files = length (keys_with_prefix src s)\<rparr>"
    by (simp add: av)
  show "error_free (snd (activate_version p v s))"
    using e2 by (simp add: av)
  have "distinct (map fst (objects ?s1))"
    unfolding o1 using w by (simp add: wf_store_def distinct_map_filter)
  then show "wf_store (snd (activate_version p v s))"
    by (simp add: av wf_store_def o2 copy_all_wf)
  have dst_cur: "\<And>k. prefix cur (?d k)"
    by simp
  show "map_of (objects (snd (activate_version p v s))) k = map_of (objects s) k"
    if "\<not> prefix cur k" for k
  proof -
    have "k \<notin> ?d ` set ?ks"
      using that dst_cur by auto
    then have "map_of (copy_all src cur ?ks (objects ?s1)) k = map_of (objects ?s1) k"
      by (rule copy_all_other)
    then show ?thesis
      using that by (simp add: av o2 m1)
  qed
  show "map_of (objects (snd (activate_version p v s))) (cur @ rel) = map_of (objects s) (src @ rel)"
  proof (cases "src @ rel \<in> set ?ks")
    case True
    have p1: "\<forall>k \<in> set ?ks. map_of (objects ?s1) k \<noteq> None"
      using present by (simp add: concat_pages_of)
    have p2: "\<forall>k \<in> set ?ks. \<forall>k' \<in> set ?ks. ?d k' \<noteq> k"
      using src_ks nc dst_cur by metis
    have p3: "inj_on ?d (set ?ks)"
    proof (rule inj_onI)
      fix x y
      assume "x \<in> set ?ks" "y \<in> set ?ks" and d: "?d x = ?d y"
      then obtain a b where "x = src @ a" "y = src @ b"
        using src_ks by (metis prefix_def)
      then show "x = y" using d by simp
    qed
    have "map_of (copy_all src cur ?ks (objects ?s1)) (?d (src @ rel)) = map_of (objects ?s1) (src @ rel)"
      by (rule copy_all_copied [OF p1 p2 p3 True])
    then show ?thesis
      using nc [of "src @ rel"] by (simp add: av o2 m1)
  next
    case False
    then have none: "map_of (objects s) (src @ rel) = None"
      using in_ks [of "src @ rel"] by simp
    have "cur @ rel \<notin> ?d ` set ?ks"
    proof
      assume "cur @ rel \<in> ?d ` set ?ks"
      then obtain k where k: "k \<in> set ?ks" "cur @ rel = ?d k" by auto
      then obtain a where "k = src @ a"
        using src_ks by (metis prefix_def)
      then show False using k False by simp
    qed
    then have "map_of (copy_all src cur ?ks (objects ?s1)) (cur @ rel) = map_of (objects ?s1) (cur @ rel)"
      by (rule copy_all_other)
    then show ?thesis
      using none by (simp add: av o2 m1)
  qed
qed
text \<open>
  C1. In a run free of errors on a well-formed bucket, \<^verbatim>\<open>activate_version\<close> succeeds and
  reports as copied the number of objects under \<open>{project}/builds/{version}/\<close>;
  afterwards the object at \<open>{project}/current/rel\<close> is the object that was at
  \<open>{project}/builds/{version}/rel\<close>, bytes and stored headers alike, for every relative
  key \<open>rel\<close> (nothing is there when nothing was there), whatever \<open>current/\<close> held before;
  outside \<open>{project}/current/\<close> nothing changes.
\<close>

theorem activate_version_replaces_current:
  assumes "wf_store s" and "error_free s"
  shows "(\<exists>r. fst (activate_version p v s) = Inr r \<and> version r = v
            \<and> copied_files r = length (keys_with_prefix (p @ ''/builds/'' @ v @ ''/'') s))
     \<and> (\<forall>rel. map_of (objects (snd (activate_version p v s))) ((p @ ''/current/'') @ rel)
              = map_of (objects s) ((p @ ''/builds/'' @ v @ ''/'') @ rel))
     \<and> (\<forall>k. \<not> prefix (p @ ''/current/'') k \<longrightarrow>
              map_of (objects (snd (activate_version p v s))) k = map_of (objects s) k)
     \<and> wf_store (snd (activate_version p v s))"
proof (intro conjI allI impI)
  show "\<exists>r. fst (activate_version p v s) = Inr r \<and> version r = v
            \<and> copied_files r = length (keys_with_prefix (p @ ''/builds/'' @ v @ ''/'') s)"
    using activate_version_error_free(1) [OF assms, of p v] by simp
next
  fix rel
  show "map_of (objects (snd (activate_version p v s))) ((p @ ''/current/'') @ rel)
              = map_of (objects s) ((p @ ''/builds/'' @ v @ ''/'') @ rel)"
    by (rule activate_version_error_free(2) [OF assms])
next
  fix k
  assume "\<not> prefix (p @ ''/current/'') k"
  then show "map_of (objects (snd (activate_version p v s))) k = map_of (objects s) k"
    by (rule activate_version_error_free(3) [OF assms])
next
  show "wf_store (snd (activate_version p v s))"
    by (rule activate_version_error_free(4) [OF assms])
qed

theorem activate_version_replaces_current_witness:
  "wf_store (example_store []) \<and> error_free (example_store [])
   \<and> length (keys_with_prefix ''shop/builds/v20250103-000000/'' (example_store [])) = 2
   \<and> map_of (objects (snd (activate_version ''shop'' ''v20250103-000000'' (example_store []))))
        ''shop/current/index.html'' = Some (html ''<p>3</p>'')
   \<and> map_of (objects (snd (activate_version ''shop'' ''v20250103-000000'' (example_store []))))
        ''shop/current/assets/app.js'' = Some (script ''three()'')
   \<and> map_of (objects (snd (activate_version ''shop'' ''v20250103-000000'' (example_store []))))
        ''shop/current/old.js'' = None
   \<and> \<not> prefix ''shop/current/'' ''shop/builds/v20250102-000000/old.js''
   \<and> map_of (objects (snd (activate_version ''shop'' ''v20250103-000000'' (example_store []))))
        ''shop/builds/v20250102-000000/old.js'' = Some (script ''two()'')"
proof -
  let ?s = "example_store []"
  let ?a = "activate_version ''shop'' ''v20250103-000000'' ?s"
  have w: "wf_store ?s"
    by (simp add: wf_store_def example_store_def)
  have e: "error_free ?s"
    by (simp add: error_free_def example_store_def)
  note T = activate_version_replaces_current [OF w e, of "''shop''" "''v20250103-000000''"]
  note C = spec [OF conjunct1 [OF conjunct2 [OF T]]]
  have n: "length (keys_with_prefix ''shop/builds/v20250103-000000/'' ?s) = 2"
    by (simp add: keys_with_prefix_def example_store_def)
  have c1: "map_of (objects (snd ?a)) ''shop/current/index.html'' = Some (html ''<p>3</p>'')"
    using C [of "''index.html''"] by (simp add: example_store_def)
  have c2: "map_of (objects (snd ?a)) ''shop/current/assets/app.js'' = Some (script ''three()'')"
    using C [of "''assets/app.js''"] by (simp add: example_store_def)
  have c3: "map_of (objects (snd ?a)) ''shop/current/old.js'' = None"
    using C [of "''old.js''"] by (simp add: example_store_def)
  have np: "\<not> prefix ''shop/current/'' ''shop/builds/v20250102-000000/old.js''"
    by simp
  have c4: "map_of (objects (snd ?a)) ''shop/builds/v20250102-000000/old.js'' = Some (script ''two()'')"
    using mp [OF spec [OF conjunct1 [OF conjunct2 [OF conjunct2 [OF T]]]],
        of "''shop/builds/v20250102-000000/old.js''"] np
    by (simp add: example_store_def)
  show ?thesis
    by (intro conjI w e n c1 c2 c3 np c4)
qed

subsection \<open>Release store: the requests of an activation\<close>

lemma request_calls:
  "calls (snd (request c r s)) = calls s @ [(c, isl (fst (request c r s)))]"
  by (simp add: request_def split: list.splits option.splits)

lemma request_result:
  "\<exists>e. fst (request c r s) = Inl e \<or> fst (request c r s) = Inr ()"
  by (cases "fst (request c r s)") simp_all

lemma collect_pages_calls:
  "\<exists>cs. calls (snd (collect_pages pfx pgs s)) = calls s @ cs
        \<and> (\<forall>c \<in> set cs. fst c = ListObjectsV2 pfx)"
proof (induction pgs arbitrary: s)
  case Nil
  then show ?case by simp
next
  case (Cons pg pgs)
  obtain r s' where rq: "request (ListObjectsV2 pfx) None s = (r, s')"
    by (cases "request (ListObjectsV2 pfx) None s")
  have c1: "calls s' = calls s @ [(ListObjectsV2 pfx, isl r)]"
    using request_calls [of "ListObjectsV2 pfx" None s] rq by simp
  show ?case
  proof (cases r)
    case (Inl e)
    then show ?thesis using c1 by (simp add: rq)
  next
    case (Inr u)
    obtain r2 s2 where cp: "collect_pages pfx pgs s' = (r2, s2)"
      by (cases "collect_pages pfx pgs s'")
    obtain cs where cs: "calls s2 = calls s' @ cs" "\<forall>c \<in> set cs. fst c = ListObjectsV2 pfx"
      using Cons.IH [of s'] cp by auto
    have "calls s2 = calls s @ ((ListObjectsV2 pfx, isl r) # cs)"
      using cs(1) c1 by simp
    moreover have "\<forall>c \<in> set ((ListObjectsV2 pfx, isl r) # cs). fst c = ListObjectsV2 pfx"
      using cs(2) by simp
    moreover have "snd (collect_pages pfx (pg # pgs) s) = s2"
      using Inr by (cases r2) (simp_all add: rq cp)
    ultimately show ?thesis by metis
  qed
qed

lemma delete_objects_calls:
  "\<exists>b. calls (snd (delete_objects batch s)) = calls s @ [(DeleteObjects batch, b)]"
proof -
  obtain r s' where rq: "request (DeleteObjects batch) None s = (r, s')"
    by (cases "request (DeleteObjects batch) None s")
  have "calls s' = calls s @ [(DeleteObjects batch, isl r)]"
    using request_calls [of "DeleteObjects batch" None s] rq by simp
  then show ?thesis
    by (cases r) (auto simp: delete_objects_def rq)
qed

lemma delete_batches_calls:
  "\<exists>cs. calls (snd (delete_batches bs s)) = calls s @ cs
        \<and> (\<forall>c \<in> set cs. \<exists>ks. fst c = DeleteObjects ks)"
proof (induction bs arbitrary: s)
  case Nil
  then show ?case by simp
next
  case (Cons b bs)
  obtain r s' where d: "delete_objects b s = (r, s')"
    by (cases "delete_objects b s")
  obtain x where c1: "calls s' = calls s @ [(DeleteObjects b, x)]"
    using delete_objects_calls [of b s] d by auto
  show ?case
  proof (cases r)
    case (Inl e)
    then show ?thesis using c1 by (simp add: d)
  next
    case (Inr u)
    obtain cs where cs: "calls (snd (delete_batches bs s')) = calls s' @ cs"
      "\<forall>c \<in> set cs. \<exists>ks. fst c = DeleteObjects ks"
      using Cons.IH [of s'] by auto
    have "calls (snd (delete_batches bs s')) = calls s @ ((DeleteObjects b, x) # cs)"
      using cs(1) c1 by simp
    moreover have "\<forall>c \<in> set ((DeleteObjects b, x) # cs). \<exists>ks. fst c = DeleteObjects ks"
      using cs(2) by simp
    moreover have "snd (delete_batches (b # bs) s) = snd (delete_batches bs s')"
      using Inr by (simp add: d)
    ultimately show ?thesis by metis
  qed
qed

lemma clear_prefix_calls:
  "\<exists>cs. calls (clear_prefix pfx s) = calls s @ cs
        \<and> (\<forall>c \<in> set cs. clear_phase_call pfx (fst c))"
proof -
  let ?ks = "keys_with_prefix pfx s"
  obtain r s' where c: "collect_pages pfx (pages_of ?ks) s = (r, s')"
    by (cases "collect_pages pfx (pages_of ?ks) s")
  obtain cs where cs: "calls s' = calls s @ cs" "\<forall>c \<in> set cs. fst c = ListObjectsV2 pfx"
    using collect_pages_calls [of pfx "pages_of ?ks" s] c by auto
  have cs': "\<forall>c \<in> set cs. clear_phase_call pfx (fst c)"
    using cs(2) by (simp add: clear_phase_call_def)
  show ?thesis
  proof (cases r)
    case (Inl e)
    then have "clear_prefix pfx s = s'"
      unfolding clear_prefix_def clear_prefix_body_def c by simp
    then show ?thesis using cs(1) cs' by auto
  next
    case (Inr ks)
    show ?thesis
    proof (cases "ks = []")
      case True
      then have "clear_prefix pfx s = s'"
        unfolding clear_prefix_def clear_prefix_body_def c Inr by simp
      then show ?thesis using cs(1) cs' by auto
    next
      case False
      then have cl: "clear_prefix pfx s = snd (delete_batches (chunks 1000 ks) s')"
        unfolding clear_prefix_def clear_prefix_body_def c Inr by simp
      obtain ds where ds: "calls (snd (delete_batches (chunks 1000 ks) s')) = calls s' @ ds"
        "\<forall>c \<in> set ds. \<exists>ks. fst c = DeleteObjects ks"
        using delete_batches_calls [of "chunks 1000 ks" s'] by auto
      have "\<forall>c \<in> set ds. clear_phase_call pfx (fst c)"
        using ds(2) by (auto simp: clear_phase_call_def)
      then have "\<forall>c \<in> set (cs @ ds). clear_phase_call pfx (fst c)"
        using cs' by auto
      moreover have "calls (clear_prefix pfx s) = calls s @ (cs @ ds)"
        using cl ds(1) cs(1) by simp
      ultimately show ?thesis by blast
    qed
  qed
qed

lemma copy_object_calls:
  "calls (snd (copy_object k d s)) = calls s @ [(CopyObject k d, isl (fst (copy_object k d s)))]"
proof (cases "map_of (objects s) k")
  case None
  obtain r s' where rq: "request (CopyObject k d) (Some ''NoSuchKey'') s = (r, s')"
    by (cases "request (CopyObject k d) (Some ''NoSuchKey'') s")
  have "calls s' = calls s @ [(CopyObject k d, isl r)]"
    using request_calls [of "CopyObject k d" "Some ''NoSuchKey''" s] rq by simp
  then show ?thesis
    using None by (cases r) (simp_all add: copy_object_def rq)
next
  case (Some ob)
  obtain r s' where rq: "request (CopyObject k d) None s = (r, s')"
    by (cases "request (CopyObject k d) None s")
  have "calls s' = calls s @ [(CopyObject k d, isl r)]"
    using request_calls [of "CopyObject k d" None s] rq by simp
  then show ?thesis
    using Some by (cases r) (simp_all add: copy_object_def rq)
qed

lemma copy_keys_calls:
  "\<exists>cs. calls (snd (copy_keys sp dp ks n s)) = calls s @ cs
        \<and> (\<forall>c \<in> set cs. copy_phase_call sp (fst c))
        \<and> (isl (fst (copy_keys sp dp ks n s)) = (\<exists>c \<in> set cs. snd c))"
proof (induction ks arbitrary: n s)
  case Nil
  then show ?case by simp
next
  case (Cons k ks)
  let ?d = "dp @ drop (length sp) k"
  obtain r s' where c: "copy_object k ?d s = (r, s')"
    by (cases "copy_object k ?d s")
  have c1: "calls s' = calls s @ [(CopyObject k ?d, isl r)]"
    using copy_object_calls [of k ?d s] c by simp
  have ph: "copy_phase_call sp (CopyObject k ?d)"
    by (simp add: copy_phase_call_def)
  show ?case
  proof (cases r)
    case (Inl e)
    then have "copy_keys sp dp (k # ks) n s = (Inl e, s')"
      by (simp add: c)
    then show ?thesis
      using c1 ph Inl by simp
  next
    case (Inr u)
    then have eq: "copy_keys sp dp (k # ks) n s = copy_keys sp dp ks (n + 1) s'"
      by (simp add: c)
    obtain cs where cs: "calls (snd (copy_keys sp dp ks (n + 1) s')) = calls s' @ cs"
      "\<forall>c \<in> set cs. copy_phase_call sp (fst c)"
      "isl (fst (copy_keys sp dp ks (n + 1) s')) = (\<exists>c \<in> set cs. snd c)"
      using Cons.IH [of "n + 1" s'] by auto
    let ?cs = "(CopyObject k ?d, isl r) # cs"
    have "calls (snd (copy_keys sp dp (k # ks) n s)) = calls s @ ?cs"
      unfolding eq using cs(1) c1 by simp
    moreover have "\<forall>c \<in> set ?cs. copy_phase_call sp (fst c)"
      using cs(2) ph by simp
    moreover have "isl (fst (copy_keys sp dp (k # ks) n s)) = (\<exists>c \<in> set ?cs. snd c)"
      unfolding eq using cs(3) Inr by simp
    ultimately show ?thesis by blast
  qed
qed

lemma copy_pages_calls:
  "\<exists>cs. calls (snd (copy_pages sp dp pgs n s)) = calls s @ cs
        \<and> (\<forall>c \<in> set cs. copy_phase_call sp (fst c))
        \<and> (isl (fst (copy_pages sp dp pgs n s)) = (\<exists>c \<in> set cs. snd c))"
proof (induction pgs arbitrary: n s)
  case Nil
  then show ?case by simp
next
  case (Cons pg pgs)
  obtain r s1 where rq: "request (ListObjectsV2 sp) None s = (r, s1)"
    by (cases "request (ListObjectsV2 sp) None s")
  have c1: "calls s1 = calls s @ [(ListObjectsV2 sp, isl r)]"
    using request_calls [of "ListObjectsV2 sp" None s] rq by simp
  have ph: "copy_phase_call sp (ListObjectsV2 sp)"
    by (simp add: copy_phase_call_def)
  show ?case
  proof (cases r)
    case (Inl e)
    then have "copy_pages sp dp (pg # pgs) n s = (Inl e, s1)"
      by (simp add: rq)
    then show ?thesis
      using c1 ph Inl by simp
  next
    case (Inr u)
    obtain r2 s2 where ck: "copy_keys sp dp pg n s1 = (r2, s2)"
      by (cases "copy_keys sp dp pg n s1")
    obtain cs where cs: "calls s2 = calls s1 @ cs"
      "\<forall>c \<in> set cs. copy_phase_call sp (fst c)"
      "isl r2 = (\<exists>c \<in> set cs. snd c)"
      using copy_keys_calls [of sp dp pg n s1] ck by auto
    show ?thesis
    proof (cases r2)
      case (Inl e)
      then have eq: "copy_pages sp dp (pg # pgs) n s = (Inl e, s2)"
        using Inr by (simp add: rq ck)
      let ?cs = "(ListObjectsV2 sp, isl r) # cs"
      have "calls (snd (copy_pages sp dp (pg # pgs) n s)) = calls s @ ?cs"
        unfolding eq using cs(1) c1 by simp
      moreover have "\<forall>c \<in> set ?cs. copy_phase_call sp (fst c)"
        using cs(2) ph by simp
      moreover have "isl (fst (copy_pages sp dp (pg # pgs) n s)) = (\<exists>c \<in> set ?cs. snd c)"
        unfolding eq using cs(3) Inl by simp
      ultimately show ?thesis by blast
    next
      case r2: (Inr m)
      then have eq: "copy_pages sp dp (pg # pgs) n s = copy_pages sp dp pgs m s2"
        using Inr by (simp add: rq ck)
      obtain ds where ds: "calls (snd (copy_pages sp dp pgs m s2)) = calls s2 @ ds"
        "\<forall>c \<in> set ds. copy_phase_call sp (fst c)"
        "isl (fst (copy_pages sp dp pgs m s2)) = (\<exists>c \<in> set ds. snd c)"
        using Cons.IH [of m s2] by auto
      let ?cs = "(ListObjectsV2 sp, isl r) # cs @ ds"
      have "calls (snd (copy_pages sp dp (pg # pgs) n s)) = calls s @ ?cs"
        unfolding eq using ds(1) cs(1) c1 by simp
      moreover have "\<forall>c \<in> set ?cs. copy_phase_call sp (fst c)"
        using cs(2) ds(2) ph by auto
      moreover have "isl (fst (copy_pages sp dp (pg # pgs) n s)) = (\<exists>c \<in> set ?cs. snd c)"
        unfolding eq using ds(3) cs(3) Inr r2 by auto
      ultimately show ?thesis by blast
    qed
  qed
qed

subsection \<open>Release store: keys of an upload\<close>

lemma chunks_Nil: "chunks n [] = []"
  by (simp add: chunks.simps)

lemma chunks_Cons:
  "0 < n \<Longrightarrow> chunks n (x # xs) = take n (x # xs) # chunks n (drop n (x # xs))"
  by (subst chunks.simps) simp

lemma deploy_backslash_state:
  "snd (deploy_version (\<lambda>n. None) backslash_project ''v1'' one_page empty_store)
   = empty_store
      \<lparr>objects := [(''a/b/builds/v1/index.html'',
                  \<lparr>body = ''<p>hi</p>'', content_type = ''text/html; charset=utf-8'',
                   cache_control = ''public, max-age=0, must-revalidate''\<rparr>)],
       calls := [(UploadFile ''a/b/builds/v1/index.html'', False)]\<rparr>"
  by (simp add: deploy_version_def deploy_version_body_def upload_file_def request_def
      s3_key_def stored_object_def replace_backslash_def Let_def
      get_enhanced_content_type_def content_types_def get_cache_control_def
      suffix_of_def rfind_dot_def lower_def lower_char_def
      backslash_project_def one_page_def empty_store_def)

lemma deploy_backslash_result:
  "fst (deploy_version (\<lambda>n. None) backslash_project ''v1'' one_page empty_store)
   = Inr \<lparr>version = ''v1'', website_url = website_url_of empty_store backslash_project,
          uploaded_files = 1, total_size = 9\<rparr>"
  by (simp add: deploy_version_def deploy_version_body_def upload_file_def request_def
      Let_def website_url_of_def one_page_def empty_store_def)

lemma list_versions_backslash:
  "fst (list_versions backslash_project
     (snd (deploy_version (\<lambda>n. None) backslash_project ''v1'' one_page empty_store))) = Inr []"
  unfolding deploy_backslash_state
  by (simp add: list_versions_def list_entries_def keys_with_prefix_def pages_of_def
      request_def page_versions_def List.map_filter_def Let_def
      backslash_project_def empty_store_def)

lemma activate_backslash:
  "fst (activate_version backslash_project ''v1''
     (snd (deploy_version (\<lambda>n. None) backslash_project ''v1'' one_page empty_store)))
   = Inr \<lparr>version = ''v1'', website_url = website_url_of empty_store backslash_project,
          copied_files = 0\<rparr>"
  unfolding deploy_backslash_state
  by (simp add: activate_version_def clear_prefix_def clear_prefix_body_def copy_s3_prefix_def
      keys_with_prefix_def pages_of_def request_def website_url_of_def Let_def
      backslash_project_def empty_store_def)

lemma deploy_colliding:
  "fst (deploy_version (\<lambda>n. None) ''shop'' ''v4'' colliding_build empty_store)
     = Inr \<lparr>version = ''v4'', website_url = website_url_of empty_store ''shop'',
            uploaded_files = 2, total_size = 4\<rparr>"
  "objects (snd (deploy_version (\<lambda>n. None) ''shop'' ''v4'' colliding_build empty_store))
     = [(''shop/builds/v4/js/a.js'',
         \<lparr>body = ''BB'', content_type = ''application/javascript; charset=utf-8'',
          cache_control = ''public, max-age=31536000, immutable''\<rparr>)]"
  by (simp_all add: deploy_version_def deploy_version_body_def upload_file_def request_def
      s3_key_def stored_object_def replace_backslash_def Let_def
      get_enhanced_content_type_def content_types_def get_cache_control_def
      suffix_of_def rfind_dot_def lower_def lower_char_def website_url_of_def
      colliding_build_def empty_store_def)

text \<open>
  C7. For the project name \<open>a\b\<close> the upload does not write under the prefix
  \<open>{project}/builds/{version}/\<close>: the replacement of backslashes, meant for the relative
  path, is applied to the whole key, prefix included, and the one object lands at
  \<open>a/b/builds/v1/index.html\<close>. The sibling operations use the prefix as it is, so the
  version just uploaded is not listed and its activation copies nothing. On POSIX the
  same replacement gives two files of one build the same key, and the upload reports two
  files for one stored object.
\<close>

theorem deploy_version_backslash_project:
  "fst (deploy_version (\<lambda>n. None) backslash_project ''v1'' one_page empty_store)
     = Inr \<lparr>version = ''v1'', website_url = website_url_of empty_store backslash_project,
            uploaded_files = 1, total_size = 9\<rparr>
   \<and> map fst (objects (snd (deploy_version (\<lambda>n. None) backslash_project ''v1'' one_page
          empty_store))) = [''a/b/builds/v1/index.html'']
   \<and> \<not> prefix (backslash_project @ ''/builds/'' @ ''v1'' @ ''/'') ''a/b/builds/v1/index.html''
   \<and> fst (list_versions backslash_project
          (snd (deploy_version (\<lambda>n. None) backslash_project ''v1'' one_page empty_store)))
       = Inr []
   \<and> fst (activate_version backslash_project ''v1''
          (snd (deploy_version (\<lambda>n. None) backslash_project ''v1'' one_page empty_store)))
       = Inr \<lparr>version = ''v1'', website_url = website_url_of empty_store backslash_project,
              copied_files = 0\<rparr>
   \<and> fst (deploy_version (\<lambda>n. None) ''shop'' ''v4'' colliding_build empty_store)
       = Inr \<lparr>version = ''v4'', website_url = website_url_of empty_store ''shop'',
              uploaded_files = 2, total_size = 4\<rparr>
   \<and> map fst (objects (snd (deploy_version (\<lambda>n. None) ''shop'' ''v4'' colliding_build
          empty_store))) = [''shop/builds/v4/js/a.js'']"
proof -
  have k: "map fst (objects (snd (deploy_version (\<lambda>n. None) backslash_project ''v1'' one_page
          empty_store))) = [''a/b/builds/v1/index.html'']"
    unfolding deploy_backslash_state by simp
  have np: "\<not> prefix (backslash_project @ ''/builds/'' @ ''v1'' @ ''/'') ''a/b/builds/v1/index.html''"
    by (simp add: backslash_project_def)
  have c: "map fst (objects (snd (deploy_version (\<lambda>n. None) ''shop'' ''v4'' colliding_build
          empty_store))) = [''shop/builds/v4/js/a.js'']"
    unfolding deploy_colliding(2) by simp
  show ?thesis
    by (intro conjI deploy_backslash_result k np list_versions_backslash activate_backslash
        deploy_colliding(1) c)
qed

subsection \<open>Release store: errors during an activation\<close>

lemma clear_not_copy:
  "clear_phase_call (p @ ''/current/'') c \<Longrightarrow> \<not> copy_phase_call (p @ ''/builds/'' @ v @ ''/'') c"
  by (cases c) (simp_all add: clear_phase_call_def copy_phase_call_def)

lemma activate_version_calls:
  fixes p v :: string
  defines "src \<equiv> p @ ''/builds/'' @ v @ ''/''" and "cur \<equiv> p @ ''/current/''"
  shows "\<exists>cs1 cs2. calls (snd (activate_version p v s)) = calls s @ cs1 @ cs2
      \<and> (\<forall>c \<in> set cs1. clear_phase_call cur (fst c))
      \<and> (\<forall>c \<in> set cs2. copy_phase_call src (fst c))
      \<and> (isl (fst (activate_version p v s)) = (\<exists>c \<in> set cs2. snd c))
      \<and> (\<forall>e. fst (activate_version p v s) = Inl e \<longrightarrow>
            (\<exists>m. e = Exception (''Failed to activate version: '' @ m)))"
proof -
  let ?s1 = "clear_prefix cur s"
  let ?pgs = "pages_of (keys_with_prefix src ?s1)"
  obtain cs1 where cs1: "calls ?s1 = calls s @ cs1" "\<forall>c \<in> set cs1. clear_phase_call cur (fst c)"
    using clear_prefix_calls [of cur s] by auto
  obtain r s2 where cp: "copy_pages src cur ?pgs 0 ?s1 = (r, s2)"
    by (cases "copy_pages src cur ?pgs 0 ?s1")
  obtain cs2 where cs2: "calls s2 = calls ?s1 @ cs2"
    "\<forall>c \<in> set cs2. copy_phase_call src (fst c)"
    "isl r = (\<exists>c \<in> set cs2. snd c)"
    using copy_pages_calls [of src cur ?pgs 0 ?s1] cp by auto
  have av: "activate_version p v s =
      (case (r, s2) of
         (Inl e, s2) \<Rightarrow> (Inl (Exception (''Failed to activate version: '' @ str e)), s2)
       | (Inr n, s2) \<Rightarrow>
           (Inr \<lparr>version = v, website_url = website_url_of s2 p, copied_files = n\<rparr>, s2))"
    unfolding activate_version_def Let_def copy_s3_prefix_def
    unfolding src_def [symmetric] cur_def [symmetric] cp
    by (rule refl)
  have s: "snd (activate_version p v s) = s2"
    unfolding av by (cases r) simp_all
  have i: "isl (fst (activate_version p v s)) = isl r"
    unfolding av by (cases r) simp_all
  have w: "\<forall>e. fst (activate_version p v s) = Inl e \<longrightarrow>
            (\<exists>m. e = Exception (''Failed to activate version: '' @ m))"
    unfolding av by (cases r) auto
  have "calls (snd (activate_version p v s)) = calls s @ cs1 @ cs2"
    using s cs1(1) cs2(1) by simp
  then show ?thesis
    using cs1(2) cs2(2) cs2(3) i w by blast
qed

lemma swallow_clear:
  "clear_prefix ''shop/current/'' (example_store [Some ''AccessDenied'']) =
   (example_store [])\<lparr>calls := [(ListObjectsV2 ''shop/current/'', True)]\<rparr>"
  by (simp add: clear_prefix_def clear_prefix_body_def pages_of_def keys_with_prefix_def
      example_store_def chunks_Cons request_def)

lemma swallow_copy:
  "copy_s3_prefix ''shop/builds/v20250103-000000/'' ''shop/current/''
    ((example_store [])\<lparr>calls := [(ListObjectsV2 ''shop/current/'', True)]\<rparr>) =
   (Inr 2, (example_store [])
     \<lparr>objects := [(''shop/current/index.html'', html ''<p>3</p>''),
                 (''shop/current/old.js'', script ''two()''),
                 (''shop/builds/v20250103-000000/index.html'', html ''<p>3</p>''),
                 (''shop/builds/v20250103-000000/assets/app.js'', script ''three()''),
                 (''shop/builds/v20250102-000000/index.html'', html ''<p>2</p>''),
                 (''shop/builds/v20250102-000000/old.js'', script ''two()''),
                 (''shop/builds/v20250101-000000/index.html'', html ''<p>1</p>''),
                 (''shop/current/assets/app.js'', script ''three()'')],
      calls := [(ListObjectsV2 ''shop/current/'', True),
        (ListObjectsV2 ''shop/builds/v20250103-000000/'', False),
        (CopyObject ''shop/builds/v20250103-000000/index.html'' ''shop/current/index.html'', False),
        (CopyObject ''shop/builds/v20250103-000000/assets/app.js''
           ''shop/current/assets/app.js'', False)]\<rparr>)"
  by (simp add: copy_s3_prefix_def pages_of_def keys_with_prefix_def chunks_Cons chunks_Nil
      copy_object_def example_store_def request_def)

lemma swallow_activate:
  "activate_version ''shop'' ''v20250103-000000'' (example_store [Some ''AccessDenied'']) =
   (Inr \<lparr>version = ''v20250103-000000'',
          website_url = ''http://minfy-uzaif-capstone-deployments.s3-website.ap-south-1.amazonaws.com/shop/current/'',
          copied_files = 2\<rparr>,
    (example_store [])
     \<lparr>objects := [(''shop/current/index.html'', html ''<p>3</p>''),
                 (''shop/current/old.js'', script ''two()''),
                 (''shop/builds/v20250103-000000/index.html'', html ''<p>3</p>''),
                 (''shop/builds/v20250103-000000/assets/app.js'', script ''three()''),
                 (''shop/builds/v20250102-000000/index.html'', html ''<p>2</p>''),
                 (''shop/builds/v20250102-000000/old.js'', script ''two()''),
                 (''shop/builds/v20250101-000000/index.html'', html ''<p>1</p>''),
                 (''shop/current/assets/app.js'', script ''three()'')],
      calls := [(ListObjectsV2 ''shop/current/'', True),
        (ListObjectsV2 ''shop/builds/v20250103-000000/'', False),
        (CopyObject ''shop/builds/v20250103-000000/index.html'' ''shop/current/index.html'', False),
        (CopyObject ''shop/builds/v20250103-000000/assets/app.js''
           ''shop/current/assets/app.js'', False)]\<rparr>)"
proof -
  have p: "''shop'' @ ''/current/'' = ''shop/current/''"
    "''shop'' @ ''/builds/'' @ ''v20250103-000000'' @ ''/'' = ''shop/builds/v20250103-000000/''"
    by simp_all
  show ?thesis
    unfolding activate_version_def Let_def p swallow_clear swallow_copy
    by (simp add: website_url_of_def example_store_def)
qed

lemma failing_clear:
  "clear_prefix ''shop/current/'' (example_store [None, None, Some ''SlowDown'']) =
   (example_store [Some ''SlowDown''])
     \<lparr>objects := [(''shop/builds/v20250103-000000/index.html'', html ''<p>3</p>''),
                 (''shop/builds/v20250103-000000/assets/app.js'', script ''three()''),
                 (''shop/builds/v20250102-000000/index.html'', html ''<p>2</p>''),
                 (''shop/builds/v20250102-000000/old.js'', script ''two()''),
                 (''shop/builds/v20250101-000000/index.html'', html ''<p>1</p>'')],
      calls := [(ListObjectsV2 ''shop/current/'', False),
                (DeleteObjects [''shop/current/index.html'', ''shop/current/old.js''], False)]\<rparr>"
  by (simp add: clear_prefix_def clear_prefix_body_def pages_of_def keys_with_prefix_def
      example_store_def chunks_Cons chunks_Nil request_def delete_objects_def)

lemma failing_copy:
  "copy_s3_prefix ''shop/builds/v20250103-000000/'' ''shop/current/''
   ((example_store [Some ''SlowDown''])
     \<lparr>objects := [(''shop/builds/v20250103-000000/index.html'', html ''<p>3</p>''),
                 (''shop/builds/v20250103-000000/assets/app.js'', script ''three()''),
                 (''shop/builds/v20250102-000000/index.html'', html ''<p>2</p>''),
                 (''shop/builds/v20250102-000000/old.js'', script ''two()''),
                 (''shop/builds/v20250101-000000/index.html'', html ''<p>1</p>'')],
      calls := [(ListObjectsV2 ''shop/current/'', False),
                (DeleteObjects [''shop/current/index.html'', ''shop/current/old.js''], False)]\<rparr>)
   = (Inl (Exception ''SlowDown''),
      (example_store [])
     \<lparr>objects := [(''shop/builds/v20250103-000000/index.html'', html ''<p>3</p>''),
                 (''shop/builds/v20250103-000000/assets/app.js'', script ''three()''),
                 (''shop/builds/v20250102-000000/index.html'', html ''<p>2</p>''),
                 (''shop/builds/v20250102-000000/old.js'', script ''two()''),
                 (''shop/builds/v20250101-000000/index.html'', html ''<p>1</p>'')],
      calls := [(ListObjectsV2 ''shop/current/'', False),
                (DeleteObjects [''shop/current/index.html'', ''shop/current/old.js''], False),
                (ListObjectsV2 ''shop/builds/v20250103-000000/'', True)]\<rparr>)"
  by (simp add: copy_s3_prefix_def pages_of_def keys_with_prefix_def chunks_Cons chunks_Nil
      example_store_def request_def)

lemma failing_activate:
  "fst (activate_version ''shop'' ''v20250103-000000'' (example_store [None, None, Some ''SlowDown'']))
     = Inl (Exception ''Failed to activate version: SlowDown'')"
  "calls (snd (activate_version ''shop'' ''v20250103-000000''
       (example_store [None, None, Some ''SlowDown''])))
     = [(ListObjectsV2 ''shop/current/'', False),
        (DeleteObjects [''shop/current/index.html'', ''shop/current/old.js''], False),
        (ListObjectsV2 ''shop/builds/v20250103-000000/'', True)]"
proof -
  have p: "''shop'' @ ''/current/'' = ''shop/current/''"
    "''shop'' @ ''/builds/'' @ ''v20250103-000000'' @ ''/'' = ''shop/builds/v20250103-000000/''"
    by simp_all
  show "fst (activate_version ''shop'' ''v20250103-000000'' (example_store [None, None, Some ''SlowDown'']))
     = Inl (Exception ''Failed to activate version: SlowDown'')"
    unfolding activate_version_def Let_def p failing_clear failing_copy by simp
  show "calls (snd (activate_version ''shop'' ''v20250103-000000''
       (example_store [None, None, Some ''SlowDown''])))
     = [(ListObjectsV2 ''shop/current/'', False),
        (DeleteObjects [''shop/current/index.html'', ''shop/current/old.js''], False),
        (ListObjectsV2 ''shop/builds/v20250103-000000/'', True)]"
    unfolding activate_version_def Let_def p failing_clear failing_copy by simp
qed

text \<open>
  C4, as stated, fails: the listing of the \<open>current/\<close> prefix is refused, the deletion
  phase ends there without a word, and the activation still reports success, leaving a
  file of the previous release under \<open>current/\<close>.
\<close>

theorem activate_version_swallows_counterexample:
  "fst (activate_version ''shop'' ''v20250103-000000'' (example_store [Some ''AccessDenied'']))
     = Inr \<lparr>version = ''v20250103-000000'',
            website_url = ''http://minfy-uzaif-capstone-deployments.s3-website.ap-south-1.amazonaws.com/shop/current/'',
            copied_files = 2\<rparr>
   \<and> calls (snd (activate_version ''shop'' ''v20250103-000000''
        (example_store [Some ''AccessDenied''])))
     = [(ListObjectsV2 ''shop/current/'', True),
        (ListObjectsV2 ''shop/builds/v20250103-000000/'', False),
        (CopyObject ''shop/builds/v20250103-000000/index.html'' ''shop/current/index.html'', False),
        (CopyObject ''shop/builds/v20250103-000000/assets/app.js''
           ''shop/current/assets/app.js'', False)]
   \<and> map_of (objects (snd (activate_version ''shop'' ''v20250103-000000''
        (example_store [Some ''AccessDenied''])))) ''shop/current/old.js''
     = Some (script ''two()'')
   \<and> map_of (objects (example_store [Some ''AccessDenied'']))
        ''shop/builds/v20250103-000000/old.js'' = None"
  unfolding swallow_activate by (simp add: example_store_def)

text \<open>
  C4, amended. The requests of an activation are those of its deletion phase and those
  of its copy phase. The activation reports an error exactly when a request of the copy
  phase failed, whatever happened in the deletion phase, whose errors \<^verbatim>\<open>_clear_prefix\<close>
  swallows; the error reported is \<open>Failed to activate version:\<close> followed by the message
  of the failure.
\<close>

theorem activate_version_error_propagation:
  "(isl (fst (activate_version p v s)) =
      (\<exists>c \<in> set (drop (length (calls s)) (calls (snd (activate_version p v s)))).
          snd c \<and> copy_phase_call (p @ ''/builds/'' @ v @ ''/'') (fst c)))
   \<and> (\<forall>c \<in> set (drop (length (calls s)) (calls (snd (activate_version p v s)))).
          clear_phase_call (p @ ''/current/'') (fst c)
          \<or> copy_phase_call (p @ ''/builds/'' @ v @ ''/'') (fst c))
   \<and> (\<forall>e. fst (activate_version p v s) = Inl e \<longrightarrow>
          (\<exists>m. e = Exception (''Failed to activate version: '' @ m)))"
proof -
  obtain cs1 cs2 where c: "calls (snd (activate_version p v s)) = calls s @ cs1 @ cs2"
    and c1: "\<forall>c \<in> set cs1. clear_phase_call (p @ ''/current/'') (fst c)"
    and c2: "\<forall>c \<in> set cs2. copy_phase_call (p @ ''/builds/'' @ v @ ''/'') (fst c)"
    and i: "isl (fst (activate_version p v s)) = (\<exists>c \<in> set cs2. snd c)"
    and w: "\<forall>e. fst (activate_version p v s) = Inl e \<longrightarrow>
            (\<exists>m. e = Exception (''Failed to activate version: '' @ m))"
    using activate_version_calls [of p v s] by blast
  have d: "drop (length (calls s)) (calls (snd (activate_version p v s))) = cs1 @ cs2"
    by (simp add: c)
  have n: "\<forall>c \<in> set cs1. \<not> copy_phase_call (p @ ''/builds/'' @ v @ ''/'') (fst c)"
    using c1 clear_not_copy by blast
  have "(\<exists>c \<in> set (cs1 @ cs2). snd c \<and> copy_phase_call (p @ ''/builds/'' @ v @ ''/'') (fst c))
      = (\<exists>c \<in> set cs2. snd c)"
    using n c2 by auto
  moreover have "\<forall>c \<in> set (cs1 @ cs2). clear_phase_call (p @ ''/current/'') (fst c)
          \<or> copy_phase_call (p @ ''/builds/'' @ v @ ''/'') (fst c)"
    using c1 c2 by auto
  ultimately show ?thesis
    unfolding d using i w by simp
qed

theorem activate_version_error_propagation_witness:
  "fst (activate_version ''shop'' ''v20250103-000000'' (example_store [None, None, Some ''SlowDown'']))
     = Inl (Exception ''Failed to activate version: SlowDown'')
   \<and> (\<exists>m. Exception ''Failed to activate version: SlowDown''
            = Exception (''Failed to activate version: '' @ m))
   \<and> calls (snd (activate_version ''shop'' ''v20250103-000000''
        (example_store [None, None, Some ''SlowDown''])))
     = [(ListObjectsV2 ''shop/current/'', False),
        (DeleteObjects [''shop/current/index.html'', ''shop/current/old.js''], False),
        (ListObjectsV2 ''shop/builds/v20250103-000000/'', True)]
   \<and> copy_phase_call (''shop'' @ ''/builds/'' @ ''v20250103-000000'' @ ''/'')
        (ListObjectsV2 ''shop/builds/v20250103-000000/'')
   \<and> clear_phase_call (''shop'' @ ''/current/'') (ListObjectsV2 ''shop/current/'')
   \<and> \<not> isl (fst (activate_version ''shop'' ''v20250103-000000''
        (example_store [Some ''AccessDenied''])))"
proof -
  note T = activate_version_error_propagation
    [of "''shop''" "''v20250103-000000''" "example_store [None, None, Some ''SlowDown'']"]
  have f: "fst (activate_version ''shop'' ''v20250103-000000''
      (example_store [None, None, Some ''SlowDown'']))
     = Inl (Exception ''Failed to activate version: SlowDown'')"
    by (rule failing_activate(1))
  have m: "\<exists>m. Exception ''Failed to activate version: SlowDown''
            = Exception (''Failed to activate version: '' @ m)"
    by (rule mp [OF spec [OF conjunct2 [OF conjunct2 [OF T]]] f])
  have cp: "copy_phase_call (''shop'' @ ''/builds/'' @ ''v20250103-000000'' @ ''/'')
        (ListObjectsV2 ''shop/builds/v20250103-000000/'')"
    by (simp add: copy_phase_call_def)
  have cl: "clear_phase_call (''shop'' @ ''/current/'') (ListObjectsV2 ''shop/current/'')"
    by (simp add: clear_phase_call_def)
  have ok: "\<not> isl (fst (activate_version ''shop'' ''v20250103-000000''
        (example_store [Some ''AccessDenied''])))"
    unfolding swallow_activate by simp
  show ?thesis
    by (intro conjI f m failing_activate(2) cp cl ok)
qed

subsection \<open>Release store: the versions of a project\<close>















lemma list_entries_cong:
  "objects t = objects s \<Longrightarrow> list_entries bp t = list_entries bp s"
  by (simp add: list_entries_def keys_with_prefix_def)









subsection \<open>Release store: cleanup of old versions\<close>





end
